theory Spec2Isabelle
  imports Main
begin

section \<open>Tokens (Token.hpp)\<close>

datatype TokenType =
    Identifier | Keyword | NumberLiteral | StringLiteral | CharacterLiteral
  | Operator | Separator | Comment | EndOfFile | Unknown
  | BooleanLiteral | NullLiteral | FloatingPointLiteral

text \<open>A token is an immutable value: kind, lexeme, line and column. The selectors carry the
  names of the getters of the class.\<close>

datatype Token = Token (getType: TokenType) (getValue: string) (getLine: nat) (getColumn: nat)

text \<open>Every failure of the program is a \<^verbatim>\<open>std::runtime_error\<close> carrying a message, apart from
  an exception that escapes a function declared \<^verbatim>\<open>noexcept\<close>, which ends the process through
  \<^verbatim>\<open>std::terminate\<close>.\<close>

datatype error = RuntimeError string | Terminate

text \<open>\<^verbatim>\<open>std::to_string\<close> on a non-negative number: its decimal digits.\<close>

definition digit_char :: "nat \<Rightarrow> char" where
  "digit_char d = char_of (48 + d)"

fun to_string :: "nat \<Rightarrow> string" where
  "to_string n = (if n < 10 then [digit_char n] else to_string (n div 10) @ [digit_char (n mod 10)])"

declare to_string.simps [simp del]

fun tokenTypeToString :: "TokenType \<Rightarrow> string" where
  "tokenTypeToString Identifier = ''Identifier''"
| "tokenTypeToString Keyword = ''Keyword''"
| "tokenTypeToString NumberLiteral = ''NumberLiteral''"
| "tokenTypeToString StringLiteral = ''StringLiteral''"
| "tokenTypeToString CharacterLiteral = ''CharacterLiteral''"
| "tokenTypeToString Operator = ''Operator''"
| "tokenTypeToString Separator = ''Separator''"
| "tokenTypeToString Comment = ''Comment''"
| "tokenTypeToString EndOfFile = ''EndOfFile''"
| "tokenTypeToString Unknown = ''Unknown''"
| "tokenTypeToString BooleanLiteral = ''BooleanLiteral''"
| "tokenTypeToString NullLiteral = ''NullLiteral''"
| "tokenTypeToString FloatingPointLiteral = ''FloatingPointLiteral''"

definition tokenToString :: "Token \<Rightarrow> string" where
  "tokenToString t =
     ''Token('' @ tokenTypeToString (getType t) @ '', '' @ [CHR 0x22] @ getValue t @ [CHR 0x22]
       @ '', Line: '' @ to_string (getLine t) @ '', Column: '' @ to_string (getColumn t) @ '')''"

section \<open>Lexer (Lexer.cpp)\<close>

text \<open>The scanner's fields. \<open>index\<close> may only grow, up to the length of \<open>source\<close>.\<close>

record Lexer =
  source :: string
  index :: nat
  line :: nat
  column :: nat

definition setSource :: "string \<Rightarrow> Lexer" where
  "setSource s = \<lparr>source = s, index = 0, line = 1, column = 1\<rparr>"

definition currentChar :: "Lexer \<Rightarrow> char" where
  "currentChar L = (if index L < length (source L) then source L ! index L else CHR 0x00)"

definition peekChar :: "Lexer \<Rightarrow> char" where
  "peekChar L = (if index L + 1 < length (source L) then source L ! (index L + 1) else CHR 0x00)"

definition advance :: "Lexer \<Rightarrow> Lexer" where
  "advance L =
     (if index L < length (source L) then
        (if source L ! index L = CHR 0x0A
         then L\<lparr>index := index L + 1, line := line L + 1, column := 1\<rparr>
         else L\<lparr>index := index L + 1, column := column L + 1\<rparr>)
      else L)"

text \<open>The character classes of \<^verbatim>\<open><cctype>\<close> in the C locale; bytes above 127 are in none.\<close>

definition isdigit :: "char \<Rightarrow> bool" where
  "isdigit c = (48 \<le> (of_char c :: nat) \<and> (of_char c :: nat) \<le> 57)"

definition isalpha :: "char \<Rightarrow> bool" where
  "isalpha c = ((65 \<le> (of_char c :: nat) \<and> (of_char c :: nat) \<le> 90)
              \<or> (97 \<le> (of_char c :: nat) \<and> (of_char c :: nat) \<le> 122))"

definition isalnum :: "char \<Rightarrow> bool" where
  "isalnum c = (isalpha c \<or> isdigit c)"

definition isspace :: "char \<Rightarrow> bool" where
  "isspace c = ((of_char c :: nat) = 32 \<or> (9 \<le> (of_char c :: nat) \<and> (of_char c :: nat) \<le> 13))"

lemma currentChar_in_range: "currentChar L \<noteq> CHR 0x00 \<Longrightarrow> index L < length (source L)"
  by (simp add: currentChar_def split: if_splits)

lemma peekChar_in_range: "peekChar L \<noteq> CHR 0x00 \<Longrightarrow> index L + 1 < length (source L)"
  by (simp add: peekChar_def split: if_splits)

lemma source_advance [simp]: "source (advance L) = source L"
  by (simp add: advance_def)

lemma index_advance: "index L < length (source L) \<Longrightarrow> index (advance L) = Suc (index L)"
  by (simp add: advance_def)

lemma index_advance_le: "index L \<le> index (advance L)"
  by (simp add: advance_def)

lemma isspace_not_nul: "isspace c \<Longrightarrow> c \<noteq> CHR 0x00"
  by (auto simp: isspace_def)

lemma isdigit_not_nul: "isdigit c \<Longrightarrow> c \<noteq> CHR 0x00"
  by (auto simp: isdigit_def)

lemma isalnum_not_nul: "isalnum c \<Longrightarrow> c \<noteq> CHR 0x00"
  by (auto simp: isalnum_def isalpha_def isdigit_def)

lemma measure_advance:
  "currentChar L \<noteq> CHR 0x00 \<Longrightarrow>
     length (source L) - index (advance L) < length (source L) - index L"
  by (frule currentChar_in_range) (simp add: index_advance)

function skipWhitespace :: "Lexer \<Rightarrow> Lexer" where
  "skipWhitespace L = (if isspace (currentChar L) then skipWhitespace (advance L) else L)"
  by pat_completeness auto
termination
  by (relation "measure (\<lambda>L. length (source L) - index L)")
     (auto dest: isspace_not_nul intro: measure_advance)

declare skipWhitespace.simps [simp del]

text \<open>The loop of a \<^verbatim>\<open>//\<close> comment: up to the newline or the end of the buffer.\<close>

function line_comment_loop :: "Lexer \<Rightarrow> Lexer" where
  "line_comment_loop L =
     (if currentChar L \<noteq> CHR 0x0A \<and> currentChar L \<noteq> CHR 0x00
      then line_comment_loop (advance L) else L)"
  by pat_completeness auto
termination
  by (relation "measure (\<lambda>L. length (source L) - index L)")
     (auto intro: measure_advance)

declare line_comment_loop.simps [simp del]

text \<open>The loop of a \<^verbatim>\<open>/* */\<close> comment: it advances before it tests for the end of the buffer.\<close>

function block_comment_loop :: "Lexer \<Rightarrow> Lexer" where
  "block_comment_loop L =
     (if \<not> (currentChar L = CHR ''*'' \<and> peekChar L = CHR ''/'')
      then (let L1 = advance L in
            if currentChar L1 = CHR 0x00 then L1 else block_comment_loop L1)
      else L)"
  by pat_completeness auto
termination
proof (relation "measure (\<lambda>L. length (source L) - index L)")
  show "wf (measure (\<lambda>L. length (source L) - index L))" by simp
next
  fix L L1
  assume "L1 = advance L" and nz: "currentChar L1 \<noteq> CHR 0x00"
  then have "index (advance L) < length (source L)"
    using currentChar_in_range [of "advance L"] by simp
  then have "index L < length (source L)"
    by (simp add: advance_def split: if_splits)
  then show "(L1, L) \<in> measure (\<lambda>L. length (source L) - index L)"
    using \<open>L1 = advance L\<close> by (simp add: index_advance)
qed

declare block_comment_loop.simps [simp del]

definition skipComment :: "Lexer \<Rightarrow> Lexer" where
  "skipComment L =
     (if currentChar L = CHR ''/'' \<and> peekChar L = CHR ''/'' then
        advance (line_comment_loop L)
      else if currentChar L = CHR ''/'' \<and> peekChar L = CHR ''*'' then
        advance (advance (block_comment_loop (advance (advance L))))
      else L)"

text \<open>\<^verbatim>\<open>number()\<close>: digits and at most one dot. The loop returns the scanner, the lexeme and
  the flag \<^verbatim>\<open>isFloatingPoint\<close>.\<close>

function number_loop :: "Lexer \<Rightarrow> string \<Rightarrow> bool \<Rightarrow> Lexer \<times> string \<times> bool" where
  "number_loop L val isFloatingPoint =
     (if isdigit (currentChar L) \<or> currentChar L = CHR ''.'' then
        (if currentChar L = CHR ''.'' \<and> isFloatingPoint then (L, val, isFloatingPoint)
         else number_loop (advance L) (val @ [currentChar L])
                (isFloatingPoint \<or> currentChar L = CHR ''.''))
      else (L, val, isFloatingPoint))"
  by pat_completeness auto
termination
  by (relation "measure (\<lambda>(L, v, b). length (source L) - index L)")
     (auto dest: isdigit_not_nul intro: measure_advance)

declare number_loop.simps [simp del]

definition number :: "Lexer \<Rightarrow> Token \<times> Lexer" where
  "number L =
     (let tokenColumn = column L;
          (L1, val, isFloatingPoint) = number_loop L [] False
      in if isFloatingPoint then (Token FloatingPointLiteral val (line L1) tokenColumn, L1)
         else (Token NumberLiteral val (line L1) tokenColumn, L1))"

text \<open>The keyword table of \<^verbatim>\<open>identifierOrKeyword()\<close>.\<close>

definition keywordTable :: "(string \<times> TokenType) list" where
  "keywordTable =
     [(''true'', BooleanLiteral), (''false'', BooleanLiteral), (''nullptr'', NullLiteral),
      (''int'', Keyword), (''return'', Keyword), (''if'', Keyword), (''else'', Keyword),
      (''for'', Keyword), (''while'', Keyword), (''float'', Keyword), (''char'', Keyword),
      (''std::string'', Keyword)]"

function identifier_loop :: "Lexer \<Rightarrow> string \<Rightarrow> Lexer \<times> string" where
  "identifier_loop L val =
     (if isalnum (currentChar L) \<or> currentChar L = CHR ''_'' then
        (let val1 = val @ [currentChar L]; L1 = advance L in
         if currentChar L1 = CHR '':'' \<and> peekChar L1 = CHR '':''
         then identifier_loop (advance (advance L1)) (val1 @ ''::'')
         else identifier_loop L1 val1)
      else (L, val))"
  by pat_completeness auto
termination
proof (relation "measure (\<lambda>(L, v). length (source L) - index L)")
  show "wf (measure (\<lambda>(L, v). length (source L) - index L))" by simp
next
  fix L :: Lexer and val val1 :: string and L1
  assume c: "isalnum (currentChar L) \<or> currentChar L = CHR ''_''" and l1: "L1 = advance L"
  from c have "currentChar L \<noteq> CHR 0x00" by (auto dest: isalnum_not_nul)
  then have lt: "index L < length (source L)" by (rule currentChar_in_range)
  have "index L < index (advance (advance L1))"
    using lt index_advance_le [of "advance L"] index_advance_le [of "advance (advance L)"] l1
    by (simp add: index_advance)
  then show "((advance (advance L1), val1 @ ''::''), (L, val))
               \<in> measure (\<lambda>(L, v). length (source L) - index L)"
    using lt l1 by simp
  show "((L1, val1), (L, val)) \<in> measure (\<lambda>(L, v). length (source L) - index L)"
    using lt l1 by (simp add: index_advance)
qed

declare identifier_loop.simps [simp del]

definition identifierOrKeyword :: "Lexer \<Rightarrow> Token \<times> Lexer" where
  "identifierOrKeyword L =
     (let tokenColumn = column L;
          (L1, val) = identifier_loop L []
      in case map_of keywordTable val of
           Some ty \<Rightarrow> (Token ty val (line L1) tokenColumn, L1)
         | None \<Rightarrow> (Token Identifier val (line L1) tokenColumn, L1))"

function string_loop :: "Lexer \<Rightarrow> string \<Rightarrow> Lexer \<times> string" where
  "string_loop L val =
     (if currentChar L \<noteq> CHR 0x22 \<and> currentChar L \<noteq> CHR 0x00 then
        (if currentChar L = CHR 0x5C \<and> peekChar L = CHR 0x22
         then (let val1 = val @ [currentChar L]; L1 = advance L in
               string_loop (advance L1) (val1 @ [currentChar L1]))
         else string_loop (advance L) (val @ [currentChar L]))
      else (L, val))"
  by pat_completeness auto
termination
proof (relation "measure (\<lambda>(L, v). length (source L) - index L)")
  show "wf (measure (\<lambda>(L, v). length (source L) - index L))" by simp
next
  fix L :: Lexer and val val1 :: string and L1
  assume nz: "currentChar L \<noteq> CHR 0x22 \<and> currentChar L \<noteq> CHR 0x00" and l1: "L1 = advance L"
  then have lt: "index L < length (source L)" by (auto dest: currentChar_in_range)
  have "index L < index (advance L1)"
    using lt index_advance_le [of "advance L"] l1 by (simp add: index_advance)
  then show "((advance L1, val1 @ [currentChar L1]), (L, val))
               \<in> measure (\<lambda>(L, v). length (source L) - index L)"
    using lt l1 by simp
next
  fix L :: Lexer and val :: string
  assume "currentChar L \<noteq> CHR 0x22 \<and> currentChar L \<noteq> CHR 0x00"
  then show "((advance L, val @ [currentChar L]), (L, val))
               \<in> measure (\<lambda>(L, v). length (source L) - index L)"
    by (auto intro: measure_advance)
qed

declare string_loop.simps [simp del]

text \<open>\<^verbatim>\<open>stringLiteral()\<close>: the closing character is appended whatever it is, so a string cut
  off by the end of the buffer ends in the NUL that \<^verbatim>\<open>currentChar\<close> returns there.\<close>

definition stringLiteral :: "Lexer \<Rightarrow> Token \<times> Lexer" where
  "stringLiteral L =
     (let tokenColumn = column L;
          val0 = [currentChar L];
          L0 = advance L;
          (L1, val1) = string_loop L0 val0;
          val2 = val1 @ [currentChar L1];
          L2 = advance L1
      in (Token StringLiteral val2 (line L2) tokenColumn, L2))"

definition characterLiteral :: "Lexer \<Rightarrow> error + Token \<times> Lexer" where
  "characterLiteral L =
     (let tokenColumn = column L;
          val0 = [currentChar L];
          L0 = advance L;
          (val1, L1) = (if currentChar L0 = CHR 0x5C \<and> peekChar L0 = CHR 0x27
                        then (val0 @ [currentChar L0], advance L0)
                        else (val0 @ [currentChar L0], L0));
          L2 = advance L1
      in if currentChar L2 \<noteq> CHR 0x27
         then Inl (RuntimeError ''Expected closing single quote for character literal'')
         else (let val2 = val1 @ [currentChar L2]; L3 = advance L2
               in Inr (Token CharacterLiteral val2 (line L3) tokenColumn, L3)))"

definition isOperator :: "char \<Rightarrow> bool" where
  "isOperator c = (c \<in> set ''+-*/%=<>!&|^~'')"

definition multiCharOperators :: "(string \<times> char) list" where
  "multiCharOperators =
     [(''='', CHR ''=''), (''!'', CHR ''=''), (''<'', CHR ''=''), (''>'', CHR ''='')]"

function operator_loop :: "Lexer \<Rightarrow> string \<Rightarrow> Lexer \<times> string" where
  "operator_loop L val =
     (if isOperator (currentChar L) then
        (let val1 = val @ [currentChar L]; L1 = advance L in
         case map_of multiCharOperators val1 of
           Some c \<Rightarrow> (if currentChar L1 = c then (advance L1, val1 @ [currentChar L1])
                      else operator_loop L1 val1)
         | None \<Rightarrow> operator_loop L1 val1)
      else (L, val))"
  by pat_completeness auto
termination
  by (relation "measure (\<lambda>(L, v). length (source L) - index L)")
     (auto simp: isOperator_def intro!: measure_advance)

declare operator_loop.simps [simp del]

definition operatorToken :: "Lexer \<Rightarrow> Token \<times> Lexer" where
  "operatorToken L =
     (let tokenColumn = column L;
          (L1, val) = operator_loop L []
      in (Token Operator val (line L1) tokenColumn, L1))"

definition isSeparatorChar :: "char \<Rightarrow> bool" where
  "isSeparatorChar c = (c = CHR '';'' \<or> c = CHR '','' \<or> c = CHR ''('' \<or> c = CHR '')''
                       \<or> c = CHR ''{'' \<or> c = CHR ''}'')"

definition nextToken :: "Lexer \<Rightarrow> error + Token \<times> Lexer" where
  "nextToken L0 =
     (let L = skipComment (skipWhitespace L0) in
      if isdigit (currentChar L) then Inr (number L)
      else if isalpha (currentChar L) \<or> currentChar L = CHR ''_'' then Inr (identifierOrKeyword L)
      else if currentChar L = CHR 0x22 then Inr (stringLiteral L)
      else if currentChar L = CHR 0x27 then characterLiteral L
      else if isOperator (currentChar L) then Inr (operatorToken L)
      else if isSeparatorChar (currentChar L) then
        Inr (Token Separator [currentChar L] (line L) (column L), advance L)
      else if currentChar L = CHR 0x00 then Inr (Token EndOfFile [] (line L) (column L), L)
      else (let unknownChar = currentChar L; L1 = advance L
            in Inr (Token Unknown [unknownChar] (line L1) (column L1), L1)))"


subsection \<open>The scanner only moves forward\<close>

text \<open>\<open>moved L L'\<close>: \<open>L'\<close> scans the same buffer as \<open>L\<close>, at the same place or further on.
  Every token but EndOfFile consumes at least one character, which is why the loop of
  \<^verbatim>\<open>tokenize()\<close> ends.\<close>

definition moved :: "Lexer \<Rightarrow> Lexer \<Rightarrow> bool" where
  "moved L L' = (source L' = source L \<and> index L \<le> index L')"

lemma moved_refl [simp]: "moved L L"
  by (simp add: moved_def)

lemma moved_trans: "moved L L1 \<Longrightarrow> moved L1 L2 \<Longrightarrow> moved L L2"
  by (simp add: moved_def)

lemma moved_advance [simp]: "moved L (advance L)"
  by (simp add: moved_def index_advance_le)

lemma moved_advance_r: "moved L L1 \<Longrightarrow> moved L (advance L1)"
  by (erule moved_trans) simp

lemma moved_advance_l: "moved (advance L) L1 \<Longrightarrow> moved L L1"
  by (rule moved_trans [OF moved_advance])

lemma moved_skipWhitespace: "moved L (skipWhitespace L)"
proof (induction L rule: skipWhitespace.induct)
  case (1 L)
  then show ?case
    using index_advance_le [of L] by (auto simp: moved_def skipWhitespace.simps [of L])
qed

lemma moved_line_comment_loop: "moved L (line_comment_loop L)"
proof (induction L rule: line_comment_loop.induct)
  case (1 L)
  then show ?case
    using index_advance_le [of L] by (auto simp: moved_def line_comment_loop.simps [of L])
qed

lemma moved_block_comment_loop: "moved L (block_comment_loop L)"
proof (induction L rule: block_comment_loop.induct)
  case (1 L)
  then show ?case
    using index_advance_le [of L]
    by (auto simp: moved_def block_comment_loop.simps [of L] Let_def)
qed

lemma moved_skipComment: "moved L (skipComment L)"
proof -
  have a: "moved L (advance (line_comment_loop L))"
    by (rule moved_advance_r) (rule moved_line_comment_loop)
  have "moved (advance (advance L)) (block_comment_loop (advance (advance L)))"
    by (rule moved_block_comment_loop)
  then have "moved L (advance (advance (block_comment_loop (advance (advance L)))))"
    by (intro moved_advance_r) (rule moved_advance_l, rule moved_advance_l)
  with a show ?thesis by (simp add: skipComment_def)
qed

lemma moved_number_loop: "moved L (fst (number_loop L v b))"
proof (induction L v b rule: number_loop.induct)
  case (1 L v b)
  then show ?case
    using index_advance_le [of L] by (auto simp: moved_def number_loop.simps [of L v b])
qed

lemma moved_identifier_loop: "moved L (fst (identifier_loop L v))"
proof (induction L v rule: identifier_loop.induct)
  case (1 L v)
  show ?case
    using 1(1) [OF _ refl refl] 1(2) [OF _ refl refl]
      index_advance_le [of L] index_advance_le [of "advance L"]
      index_advance_le [of "advance (advance L)"]
    by (auto simp: moved_def identifier_loop.simps [of L v] Let_def)
qed

lemma moved_string_loop: "moved L (fst (string_loop L v))"
proof (induction L v rule: string_loop.induct)
  case (1 L v)
  show ?case
    using 1(1) [OF _ _ refl refl] 1(2)
      index_advance_le [of L] index_advance_le [of "advance L"]
    by (auto simp: moved_def string_loop.simps [of L v] Let_def)
qed

lemma moved_operator_loop: "moved L (fst (operator_loop L v))"
proof (induction L v rule: operator_loop.induct)
  case (1 L v)
  show ?case
    using 1(1) [OF _ refl refl] 1(2) [OF _ refl refl]
      index_advance_le [of L] index_advance_le [of "advance L"]
    by (auto simp: moved_def operator_loop.simps [of L v] Let_def split: option.splits)
qed

lemma moved_past:
  assumes "currentChar L \<noteq> CHR 0x00" and "moved (advance L) L1"
  shows "source L1 = source L \<and> index L < index L1"
  using assms currentChar_in_range [of L] by (simp add: moved_def index_advance)


lemma number_progress:
  assumes "isdigit (currentChar L)" and "number L = (tok, L')"
  shows "source L' = source L \<and> index L < index L'"
proof -
  have "moved (advance L) (fst (number_loop L [] False))"
    using assms(1) moved_number_loop [of "advance L"] by (simp add: number_loop.simps [of L])
  moreover have "L' = fst (number_loop L [] False)"
    using assms(2) by (auto simp: number_def Let_def split: prod.splits if_splits)
  ultimately show ?thesis
    using moved_past [of L L'] isdigit_not_nul [OF assms(1)] by simp
qed

lemma identifierOrKeyword_progress:
  assumes "isalpha (currentChar L) \<or> currentChar L = CHR ''_''"
    and "identifierOrKeyword L = (tok, L')"
  shows "source L' = source L \<and> index L < index L'"
proof -
  have c: "isalnum (currentChar L) \<or> currentChar L = CHR ''_''"
    using assms(1) by (auto simp: isalnum_def)
  have "moved (advance L) (fst (identifier_loop L []))"
    using c moved_identifier_loop [of "advance L"]
      moved_identifier_loop [of "advance (advance (advance L))"]
    by (auto simp: identifier_loop.simps [of L] Let_def intro: moved_advance_l)
  moreover have "L' = fst (identifier_loop L [])"
    using assms(2) by (auto simp: identifierOrKeyword_def Let_def split: prod.splits option.splits)
  moreover have "currentChar L \<noteq> CHR 0x00"
    using c by (auto dest: isalnum_not_nul)
  ultimately show ?thesis
    using moved_past [of L L'] by simp
qed

lemma stringLiteral_progress:
  assumes "currentChar L = CHR 0x22" and "stringLiteral L = (tok, L')"
  shows "source L' = source L \<and> index L < index L'"
proof -
  have "L' = advance (fst (string_loop (advance L) [currentChar L]))"
    using assms(2) by (auto simp: stringLiteral_def Let_def split: prod.splits)
  then have "moved (advance L) L'"
    by (simp add: moved_advance_r moved_string_loop)
  then show ?thesis
    using assms(1) by (intro moved_past) auto
qed

lemma characterLiteral_progress:
  assumes "currentChar L = CHR 0x27" and "characterLiteral L = Inr (tok, L')"
  shows "source L' = source L \<and> index L < index L'"
proof -
  have "L' = advance (advance (advance L)) \<or> L' = advance (advance (advance (advance L)))"
    using assms(2) by (auto simp: characterLiteral_def Let_def split: prod.splits if_splits)
  moreover have "moved (advance L) (advance (advance (advance L)))"
    and "moved (advance L) (advance (advance (advance (advance L))))"
    by (intro moved_advance_r moved_refl)+
  ultimately have "moved (advance L) L'"
    by blast
  then show ?thesis
    using assms(1) by (intro moved_past) auto
qed

lemma isOperator_not_nul: "isOperator c \<Longrightarrow> c \<noteq> CHR 0x00"
  by (auto simp: isOperator_def)

lemma operatorToken_progress:
  assumes "isOperator (currentChar L)" and "operatorToken L = (tok, L')"
  shows "source L' = source L \<and> index L < index L'"
proof -
  have "moved (advance L) (fst (operator_loop L []))"
    using assms(1) moved_operator_loop [of "advance L"]
    by (auto simp: operator_loop.simps [of L] Let_def moved_advance_r split: option.splits)
  moreover have "L' = fst (operator_loop L [])"
    using assms(2) by (auto simp: operatorToken_def Let_def split: prod.splits)
  ultimately show ?thesis
    using moved_past [of L L'] isOperator_not_nul [OF assms(1)] by simp
qed

lemma nextToken_progress:
  assumes "nextToken L = Inr (tok, L')" and "getType tok \<noteq> EndOfFile"
  shows "source L' = source L \<and> index L < index L'"
proof -
  define M where "M = skipComment (skipWhitespace L)"
  have LM: "moved L M"
    unfolding M_def by (rule moved_trans [OF moved_skipWhitespace moved_skipComment])
  have "source L' = source M \<and> index M < index L'"
  proof -
    consider (num) "isdigit (currentChar M)"
      | (ident) "\<not> isdigit (currentChar M)" "isalpha (currentChar M) \<or> currentChar M = CHR ''_''"
      | (str) "\<not> isdigit (currentChar M)" "\<not> (isalpha (currentChar M) \<or> currentChar M = CHR ''_'')"
          "currentChar M = CHR 0x22"
      | (chr) "\<not> isdigit (currentChar M)" "\<not> (isalpha (currentChar M) \<or> currentChar M = CHR ''_'')"
          "currentChar M \<noteq> CHR 0x22" "currentChar M = CHR 0x27"
      | (oper) "\<not> isdigit (currentChar M)" "\<not> (isalpha (currentChar M) \<or> currentChar M = CHR ''_'')"
          "currentChar M \<noteq> CHR 0x22" "currentChar M \<noteq> CHR 0x27" "isOperator (currentChar M)"
      | (other) "\<not> isdigit (currentChar M)" "\<not> (isalpha (currentChar M) \<or> currentChar M = CHR ''_'')"
          "currentChar M \<noteq> CHR 0x22" "currentChar M \<noteq> CHR 0x27" "\<not> isOperator (currentChar M)"
      by blast
    then show ?thesis
    proof cases
      case num
      then have "number M = (tok, L')"
        using assms(1) by (simp add: nextToken_def M_def [symmetric])
      with num show ?thesis by (rule number_progress)
    next
      case ident
      then have "identifierOrKeyword M = (tok, L')"
        using assms(1) by (simp add: nextToken_def M_def [symmetric])
      with ident(2) show ?thesis by (rule identifierOrKeyword_progress)
    next
      case str
      then have "stringLiteral M = (tok, L')"
        using assms(1) by (simp add: nextToken_def M_def [symmetric])
      with str(3) show ?thesis by (rule stringLiteral_progress)
    next
      case chr
      then have "characterLiteral M = Inr (tok, L')"
        using assms(1) by (simp add: nextToken_def M_def [symmetric])
      with chr(4) show ?thesis by (rule characterLiteral_progress)
    next
      case oper
      then have "operatorToken M = (tok, L')"
        using assms(1) by (simp add: nextToken_def M_def [symmetric])
      with oper(5) show ?thesis by (rule operatorToken_progress)
    next
      case other
      then have nz: "currentChar M \<noteq> CHR 0x00" and "L' = advance M"
        using assms
        by (auto simp: nextToken_def M_def [symmetric] Let_def isSeparatorChar_def
                 split: if_splits)
      then show ?thesis
        by (intro moved_past) auto
    qed
  qed
  with LM show ?thesis by (simp add: moved_def)
qed

text \<open>\<^verbatim>\<open>tokenize()\<close>: the loop runs while the index is inside the buffer.\<close>

function tokenize_loop :: "Lexer \<Rightarrow> Token list \<Rightarrow> error + Token list" where
  "tokenize_loop L tokens =
     (if index L < length (source L) then
        (case nextToken L of
           Inl e \<Rightarrow> Inl e
         | Inr (token, L1) \<Rightarrow>
             (let tokens1 = (if getType token \<noteq> Unknown then tokens @ [token] else tokens) in
              if getType token = EndOfFile then Inr tokens1
              else tokenize_loop L1 tokens1))
      else Inr tokens)"
  by pat_completeness auto
termination
proof (relation "measure (\<lambda>(L, ts). length (source L) - index L)")
  show "wf (measure (\<lambda>(L, ts). length (source L) - index L))" by simp
next
  fix L :: Lexer and tokens tokens1 :: "Token list" and x token L1
  assume "index L < length (source L)" and "nextToken L = Inr x" and "(token, L1) = x"
    and "getType token \<noteq> EndOfFile"
  then show "((L1, tokens1), (L, tokens)) \<in> measure (\<lambda>(L, ts). length (source L) - index L)"
    using nextToken_progress [of L token L1] by auto
qed

declare tokenize_loop.simps [simp del]

definition tokenize :: "string \<Rightarrow> error + Token list" where
  "tokenize src = tokenize_loop (setSource src) []"

section \<open>Symbol table (SymbolTable.hpp)\<close>

text \<open>One flat map from a name to the name of its declared type.\<close>

type_synonym SymbolTable = "string \<rightharpoonup> string"

definition declareVariable :: "SymbolTable \<Rightarrow> string \<Rightarrow> string \<Rightarrow> error + SymbolTable" where
  "declareVariable symbols name ty =
     (if symbols name \<noteq> None
      then Inl (RuntimeError (''Variable '' @ [CHR 0x27] @ name @ [CHR 0x27] @ '' is already declared''))
      else Inr (symbols(name \<mapsto> ty)))"

definition lookupVariable :: "SymbolTable \<Rightarrow> string \<Rightarrow> error + string" where
  "lookupVariable symbols name =
     (case symbols name of
        None \<Rightarrow> Inl (RuntimeError (''Variable '' @ [CHR 0x27] @ name @ [CHR 0x27] @ '' is not declared''))
      | Some ty \<Rightarrow> Inr ty)"

section \<open>Syntax tree and semantic checks (AST.hpp)\<close>

datatype BinaryOp =
  Add | Subtract | Multiply | Divide | Modulo | LessThan | GreaterThan | Equal | NotEqual | And | Or

datatype Expression =
    BinaryExpression Expression BinaryOp Expression
  | LiteralExpression string
  | VariableExpression string

text \<open>A pointer that the code tests against null is an \<open>option\<close>: the initializer of a
  declaration, the value of a return, the else branch of an if.\<close>

datatype Statement =
    BlockStatement "Statement list"
  | VariableDeclaration string string "Expression option"
  | AssignmentStatement string Expression
  | ReturnStatement "Expression option"
  | FunctionDeclaration string string "string list" "Statement list"
  | IfStatement Expression Statement "Statement option"

fun opToString :: "BinaryOp \<Rightarrow> string" where
  "opToString Add = ''+''"
| "opToString Subtract = ''-''"
| "opToString Multiply = ''*''"
| "opToString Divide = ''/''"
| "opToString Modulo = ''%''"
| "opToString LessThan = ''<''"
| "opToString GreaterThan = ''>''"
| "opToString Equal = ''==''"
| "opToString NotEqual = ''!=''"
| "opToString And = ''&&''"
| "opToString Or = ''||''"

text \<open>The three tests of \<^verbatim>\<open>LiteralExpression\<close> on its lexeme. \<^verbatim>\<open>front()\<close> and
  \<^verbatim>\<open>back()\<close> of an empty lexeme are not defined by the language; the parser never builds
  one, and the model answers \<open>False\<close> there.\<close>

definition isCharacterLiteral :: "string \<Rightarrow> bool" where
  "isCharacterLiteral v = (length v = 3 \<and> hd v = CHR 0x27 \<and> last v = CHR 0x27)"

definition isStringLiteral :: "string \<Rightarrow> bool" where
  "isStringLiteral v = (v \<noteq> [] \<and> hd v = CHR 0x22 \<and> last v = CHR 0x22)"

definition isFloatingPointLiteral :: "string \<Rightarrow> bool" where
  "isFloatingPointLiteral v = (CHR ''.'' \<in> set v)"

fun toString :: "Expression \<Rightarrow> string" where
  "toString (BinaryExpression l opr r) =
     ''('' @ toString l @ '' '' @ opToString opr @ '' '' @ toString r @ '')''"
| "toString (LiteralExpression v) = v"
| "toString (VariableExpression name) = name"

fun getTypeOf :: "SymbolTable \<Rightarrow> Expression \<Rightarrow> error + string" where
  "getTypeOf symTable (BinaryExpression l opr r) =
     (case getTypeOf symTable l of
        Inl e \<Rightarrow> Inl e
      | Inr leftType \<Rightarrow>
         (case getTypeOf symTable r of
            Inl e \<Rightarrow> Inl e
          | Inr rightType \<Rightarrow>
             if opr = And \<or> opr = Or then Inr ''bool''
             else if (leftType = ''int'' \<and> rightType = ''float'')
                   \<or> (leftType = ''float'' \<and> rightType = ''int'') then Inr ''float''
             else if leftType \<noteq> rightType then
               Inl (RuntimeError (''Type mismatch in binary expression: '' @ leftType @ '' ''
                                   @ opToString opr @ '' '' @ rightType))
             else Inr leftType))"
| "getTypeOf symTable (LiteralExpression v) =
     (if isCharacterLiteral v then Inr ''char''
      else if isStringLiteral v then Inr ''std::string''
      else if isFloatingPointLiteral v then Inr ''float''
      else Inr ''int'')"
| "getTypeOf symTable (VariableExpression name) = lookupVariable symTable name"

text \<open>\<^verbatim>\<open>checkSemantics\<close> of an expression reads the table and changes nothing.\<close>

fun checkExpression :: "SymbolTable \<Rightarrow> Expression \<Rightarrow> error + unit" where
  "checkExpression symTable (BinaryExpression l opr r) =
     (case checkExpression symTable l of
        Inl e \<Rightarrow> Inl e
      | Inr u \<Rightarrow> checkExpression symTable r)"
| "checkExpression symTable (LiteralExpression v) = Inr ()"
| "checkExpression symTable (VariableExpression name) =
     (case lookupVariable symTable name of Inl e \<Rightarrow> Inl e | Inr ty \<Rightarrow> Inr ())"

text \<open>\<^verbatim>\<open>checkSemantics\<close> of a statement returns the table as the statement leaves it.
  \<^verbatim>\<open>FunctionDeclaration::checkSemantics\<close> is declared \<^verbatim>\<open>noexcept\<close>: an error in its body
  ends the process.\<close>

fun checkSemantics :: "Statement \<Rightarrow> SymbolTable \<Rightarrow> error + SymbolTable"
  and checkStatements :: "Statement list \<Rightarrow> SymbolTable \<Rightarrow> error + SymbolTable" where
  "checkSemantics (BlockStatement statements) symTable = checkStatements statements symTable"
| "checkSemantics (VariableDeclaration ty name initializer) symTable =
     (case declareVariable symTable name ty of
        Inl e \<Rightarrow> Inl e
      | Inr symTable1 \<Rightarrow>
         (case initializer of
            None \<Rightarrow> Inr symTable1
          | Some ini \<Rightarrow>
             (case checkExpression symTable1 ini of
                Inl e \<Rightarrow> Inl e
              | Inr u \<Rightarrow>
                 (case getTypeOf symTable1 ini of
                    Inl e \<Rightarrow> Inl e
                  | Inr initType0 \<Rightarrow>
                     (case (if initType0 = ''int'' \<and> ty = ''float'' then Inr ''float''
                            else if initType0 = ''float'' \<and> ty = ''int'' then
                              Inl (RuntimeError ''Cannot assign float to int without explicit cast'')
                            else Inr initType0) of
                        Inl e \<Rightarrow> Inl e
                      | Inr initType \<Rightarrow>
                         if initType \<noteq> ty then
                           Inl (RuntimeError (''Type mismatch: Cannot initialize variable of type ''
                                  @ [CHR 0x27] @ ty @ [CHR 0x27] @ '' with value of type ''
                                  @ [CHR 0x27] @ initType @ [CHR 0x27]))
                         else Inr symTable1)))))"
| "checkSemantics (AssignmentStatement name val) symTable =
     (case checkExpression symTable val of
        Inl e \<Rightarrow> Inl e
      | Inr u \<Rightarrow>
         (case lookupVariable symTable name of
            Inl e \<Rightarrow> Inl e
          | Inr varType \<Rightarrow>
             (case getTypeOf symTable val of
                Inl e \<Rightarrow> Inl e
              | Inr valueType0 \<Rightarrow>
                 (case (if valueType0 = ''int'' \<and> varType = ''float'' then Inr ''float''
                        else if valueType0 = ''float'' \<and> varType = ''int'' then
                          Inl (RuntimeError ''Cannot assign float to int without explicit cast'')
                        else Inr valueType0) of
                    Inl e \<Rightarrow> Inl e
                  | Inr valueType \<Rightarrow>
                     if varType \<noteq> valueType then
                       Inl (RuntimeError (''Type mismatch in assignment: Cannot assign ''
                              @ valueType @ '' to '' @ varType))
                     else Inr symTable))))"
| "checkSemantics (ReturnStatement val) symTable =
     (case val of
        None \<Rightarrow> Inr symTable
      | Some v \<Rightarrow> (case checkExpression symTable v of Inl e \<Rightarrow> Inl e | Inr u \<Rightarrow> Inr symTable))"
| "checkSemantics (FunctionDeclaration returnType name parameters body) symTable =
     (case checkStatements body symTable of
        Inl e \<Rightarrow> Inl Terminate
      | Inr symTable1 \<Rightarrow> Inr symTable1)"
| "checkSemantics (IfStatement condition thenBranch elseBranch) symTable =
     (case checkExpression symTable condition of
        Inl e \<Rightarrow> Inl e
      | Inr u \<Rightarrow>
         (case getTypeOf symTable condition of
            Inl e \<Rightarrow> Inl e
          | Inr conditionType \<Rightarrow>
             if conditionType \<noteq> ''int'' \<and> conditionType \<noteq> ''bool'' then
               Inl (RuntimeError (''Condition in '' @ [CHR 0x27] @ ''if'' @ [CHR 0x27]
                                   @ '' statement must be of type int or bool''))
             else
               (case checkSemantics thenBranch symTable of
                  Inl e \<Rightarrow> Inl e
                | Inr symTable1 \<Rightarrow>
                   (case elseBranch of
                      None \<Rightarrow> Inr symTable1
                    | Some els \<Rightarrow> checkSemantics els symTable1))))"
| "checkStatements [] symTable = Inr symTable"
| "checkStatements (stmt # rest) symTable =
     (case checkSemantics stmt symTable of
        Inl e \<Rightarrow> Inl e
      | Inr symTable1 \<Rightarrow> checkStatements rest symTable1)"

section \<open>Parser (Parser.cpp)\<close>

text \<open>The parser's state is the token vector, which never changes after \<^verbatim>\<open>setTokens\<close>, and
  the cursor into it. Every parsing function takes both and returns the node it built with the
  cursor behind it, or the error it threw.\<close>

definition currentToken :: "Token list \<Rightarrow> nat \<Rightarrow> Token" where
  "currentToken tokens i = (if i < length tokens then tokens ! i else Token EndOfFile [] 0 0)"

definition advanceToken :: "Token list \<Rightarrow> nat \<Rightarrow> nat" where
  "advanceToken tokens i = (if i < length tokens then i + 1 else i)"

definition match :: "Token list \<Rightarrow> nat \<Rightarrow> TokenType \<Rightarrow> bool" where
  "match tokens i ty = (getType (currentToken tokens i) = ty)"

definition getPrecedence :: "Token \<Rightarrow> int" where
  "getPrecedence token =
     (if getType token = Operator then
        (let v = getValue token in
         if v = ''+'' \<or> v = ''-'' then 10
         else if v = ''*'' \<or> v = ''/'' \<or> v = ''%'' then 20
         else if v = ''=='' \<or> v = ''!='' then 5
         else if v = ''&&'' \<or> v = ''||'' then 3
         else if v = ''<'' \<or> v = ''>'' \<or> v = ''<='' \<or> v = ''>='' then 15
         else -1)
      else -1)"

definition tokenToBinaryOp :: "Token \<Rightarrow> error + BinaryOp" where
  "tokenToBinaryOp token =
     (let v = getValue token in
      if v = ''+'' then Inr Add
      else if v = ''-'' then Inr Subtract
      else if v = ''*'' then Inr Multiply
      else if v = ''/'' then Inr Divide
      else if v = ''%'' then Inr Modulo
      else if v = ''<'' then Inr LessThan
      else if v = ''>'' then Inr GreaterThan
      else if v = ''=='' then Inr Equal
      else if v = ''!='' then Inr NotEqual
      else if v = ''&&'' then Inr And
      else if v = ''||'' then Inr Or
      else Inl (RuntimeError (''Unknown binary operator: '' @ tokenToString token)))"

definition parsePrimaryExpression :: "Token list \<Rightarrow> nat \<Rightarrow> error + Expression \<times> nat" where
  "parsePrimaryExpression tokens i =
     (if match tokens i NumberLiteral \<or> match tokens i FloatingPointLiteral
         \<or> match tokens i StringLiteral \<or> match tokens i CharacterLiteral then
        Inr (LiteralExpression (getValue (currentToken tokens i)), advanceToken tokens i)
      else if match tokens i Identifier then
        Inr (VariableExpression (getValue (currentToken tokens i)), advanceToken tokens i)
      else Inl (RuntimeError (''Unexpected token in expression: ''
                               @ tokenToString (currentToken tokens i))))"

lemma match_in_range: "match tokens i ty \<Longrightarrow> ty \<noteq> EndOfFile \<Longrightarrow> i < length tokens"
  by (auto simp: match_def currentToken_def split: if_splits)

lemma parsePrimaryExpression_progress:
  "parsePrimaryExpression tokens i = Inr (e, i') \<Longrightarrow> i < length tokens \<and> i' = Suc i"
  by (auto simp: parsePrimaryExpression_def advanceToken_def split: if_splits
           dest: match_in_range)

lemma tokenToBinaryOp_in_range:
  "tokenToBinaryOp (currentToken tokens i) = Inr b \<Longrightarrow> i < length tokens"
  by (auto simp: tokenToBinaryOp_def currentToken_def Let_def split: if_splits)

function (domintros)
  parseBinaryExpression :: "Token list \<Rightarrow> nat \<Rightarrow> int \<Rightarrow> error + Expression \<times> nat"
  and binary_loop :: "Token list \<Rightarrow> nat \<Rightarrow> int \<Rightarrow> Expression \<Rightarrow> error + Expression \<times> nat" where
  "parseBinaryExpression tokens i precedence =
     (case parsePrimaryExpression tokens i of
        Inl e \<Rightarrow> Inl e
      | Inr (left, i1) \<Rightarrow> binary_loop tokens i1 precedence left)"
| "binary_loop tokens i precedence left =
     (let tokenPrecedence = getPrecedence (currentToken tokens i) in
      if tokenPrecedence < precedence then Inr (left, i)
      else
        (case tokenToBinaryOp (currentToken tokens i) of
           Inl e \<Rightarrow> Inl e
         | Inr opr \<Rightarrow>
            (case parseBinaryExpression tokens (advanceToken tokens i) (tokenPrecedence + 1) of
               Inl e \<Rightarrow> Inl e
             | Inr (right, i2) \<Rightarrow>
                binary_loop tokens i2 precedence (BinaryExpression left opr right))))"
  by pat_completeness auto


lemma advanceToken_le: "i \<le> advanceToken tokens i"
  by (simp add: advanceToken_def)

lemma parseBinaryExpression_progress_dom:
  "parseBinaryExpression_binary_loop_dom (Inl (tokens, i, precedence)) \<Longrightarrow>
     \<forall>e i'. parseBinaryExpression tokens i precedence = Inr (e, i') \<longrightarrow> i < i'"
  "parseBinaryExpression_binary_loop_dom (Inr (tokens, i, precedence, left)) \<Longrightarrow>
     \<forall>e i'. binary_loop tokens i precedence left = Inr (e, i') \<longrightarrow> i \<le> i'"
proof (induct rule: parseBinaryExpression_binary_loop.pinduct)
  case (1 tokens i precedence)
  show ?case
  proof (intro allI impI)
    fix e i'
    assume r: "parseBinaryExpression tokens i precedence = Inr (e, i')"
    then obtain left i1 where p: "parsePrimaryExpression tokens i = Inr (left, i1)"
      and l: "binary_loop tokens i1 precedence left = Inr (e, i')"
      using 1(1) by (auto simp: parseBinaryExpression.psimps split: sum.splits)
    from p have "i1 = Suc i" by (simp add: parsePrimaryExpression_progress)
    moreover from 1(2) [OF p refl] l have "i1 \<le> i'" by blast
    ultimately show "i < i'" by simp
  qed
next
  case (2 tokens i precedence left)
  show ?case
  proof (intro allI impI)
    fix e i'
    assume r: "binary_loop tokens i precedence left = Inr (e, i')"
    show "i \<le> i'"
    proof (cases "getPrecedence (currentToken tokens i) < precedence")
      case True
      with r 2(1) show ?thesis by (simp add: binary_loop.psimps)
    next
      case False
      with r 2(1) obtain opr right i2 where
        o: "tokenToBinaryOp (currentToken tokens i) = Inr opr"
        and pr: "parseBinaryExpression tokens (advanceToken tokens i)
                   (getPrecedence (currentToken tokens i) + 1) = Inr (right, i2)"
        and l: "binary_loop tokens i2 precedence (BinaryExpression left opr right) = Inr (e, i')"
        by (auto simp: binary_loop.psimps Let_def split: sum.splits)
      from 2(2) [OF refl False o] pr have "advanceToken tokens i < i2" by blast
      moreover from 2(3) [OF refl False o pr refl] l have "i2 \<le> i'" by blast
      ultimately show ?thesis using advanceToken_le [of i tokens] by simp
    qed
  qed
qed

termination parseBinaryExpression
proof (relation "measure (\<lambda>x. case x of
          Inl (tokens, i, p) \<Rightarrow> 2 * (length tokens - i) + 1
        | Inr (tokens, i, p, l) \<Rightarrow> 2 * (length tokens - i))")
  show "wf (measure (\<lambda>x. case x of
          Inl (tokens, i, p) \<Rightarrow> 2 * (length tokens - i) + 1
        | Inr (tokens, i, p, l) \<Rightarrow> 2 * (length tokens - i)))" by simp
next
  fix tokens i precedence x2 x y
  assume "parsePrimaryExpression tokens i = Inr x2" and "(x, y) = x2"
  then have "i < length tokens \<and> y = Suc i"
    using parsePrimaryExpression_progress [of tokens i x y] by simp
  then show "(Inr (tokens, y, precedence, x), Inl (tokens, i, precedence))
      \<in> measure (\<lambda>x. case x of
          Inl (tokens, i, p) \<Rightarrow> 2 * (length tokens - i) + 1
        | Inr (tokens, i, p, l) \<Rightarrow> 2 * (length tokens - i))" by simp
next
  fix tokens i precedence and left :: Expression and x :: int and x2
  assume "tokenToBinaryOp (currentToken tokens i) = Inr x2"
  then have "i < length tokens" by (rule tokenToBinaryOp_in_range)
  then show "(Inl (tokens, advanceToken tokens i, x + 1), Inr (tokens, i, precedence, left))
      \<in> measure (\<lambda>x. case x of
          Inl (tokens, i, p) \<Rightarrow> 2 * (length tokens - i) + 1
        | Inr (tokens, i, p, l) \<Rightarrow> 2 * (length tokens - i))"
    by (simp add: advanceToken_def)
next
  fix tokens i precedence left x x2 x2a xa y
  assume o: "tokenToBinaryOp (currentToken tokens i) = Inr x2"
    and r: "parseBinaryExpression tokens (advanceToken tokens i) (x + 1) = Inr x2a"
    and xy: "(xa, y) = x2a"
    and d: "parseBinaryExpression_binary_loop_dom (Inl (tokens, advanceToken tokens i, x + 1))"
  from o have lt: "i < length tokens" by (rule tokenToBinaryOp_in_range)
  from parseBinaryExpression_progress_dom(1) [OF d] r xy have "advanceToken tokens i < y"
    by auto
  with lt show "(Inr (tokens, y, precedence, BinaryExpression left x2 xa),
        Inr (tokens, i, precedence, left))
      \<in> measure (\<lambda>x. case x of
          Inl (tokens, i, p) \<Rightarrow> 2 * (length tokens - i) + 1
        | Inr (tokens, i, p, l) \<Rightarrow> 2 * (length tokens - i))"
    by (simp add: advanceToken_def)
qed


declare parseBinaryExpression.simps [simp del] binary_loop.simps [simp del]

lemma parseBinaryExpression_total:
  "parseBinaryExpression_binary_loop_dom (Inl (tokens, i, precedence))"
  "parseBinaryExpression_binary_loop_dom (Inr (tokens, i, precedence, left))"
  by (induct tokens i precedence and tokens i precedence left
        rule: parseBinaryExpression_binary_loop.induct)
     (auto intro: parseBinaryExpression_binary_loop.domintros)

lemma parseBinaryExpression_progress:
  "parseBinaryExpression tokens i precedence = Inr (e, i') \<Longrightarrow> i < i'"
  using parseBinaryExpression_progress_dom(1) [OF parseBinaryExpression_total(1)] by blast

definition parseExpression :: "Token list \<Rightarrow> nat \<Rightarrow> error + Expression \<times> nat" where
  "parseExpression tokens i = parseBinaryExpression tokens i 0"

definition parseReturn :: "Token list \<Rightarrow> nat \<Rightarrow> error + Statement \<times> nat" where
  "parseReturn tokens i =
     (let i1 = advanceToken tokens i in
      case parseExpression tokens i1 of
        Inl e \<Rightarrow> Inl e
      | Inr (val, i2) \<Rightarrow>
         if \<not> match tokens i2 Separator \<or> getValue (currentToken tokens i2) \<noteq> '';'' then
           Inl (RuntimeError (''Expected '' @ [CHR 0x27] @ '';'' @ [CHR 0x27]
                               @ '' after return statement''))
         else Inr (ReturnStatement (Some val), advanceToken tokens i2))"

definition parseAssignmentOrFunctionCall :: "Token list \<Rightarrow> nat \<Rightarrow> error + Statement \<times> nat" where
  "parseAssignmentOrFunctionCall tokens i =
     (let name = getValue (currentToken tokens i); i1 = advanceToken tokens i in
      if match tokens i1 Operator \<and> getValue (currentToken tokens i1) = ''='' then
        (let i2 = advanceToken tokens i1 in
         case parseExpression tokens i2 of
           Inl e \<Rightarrow> Inl e
         | Inr (val, i3) \<Rightarrow>
            if \<not> match tokens i3 Separator \<or> getValue (currentToken tokens i3) \<noteq> '';'' then
              Inl (RuntimeError (''Expected '' @ [CHR 0x27] @ '';'' @ [CHR 0x27]
                                  @ '' after assignment''))
            else Inr (AssignmentStatement name val, advanceToken tokens i3))
      else if match tokens i1 Separator \<and> getValue (currentToken tokens i1) = ''('' then
        Inl (RuntimeError ''Function calls not yet supported.'')
      else Inl (RuntimeError (''Unexpected token after identifier: ''
                               @ tokenToString (currentToken tokens i1))))"

text \<open>The loop over the parameters of a function declaration.\<close>

function parameter_loop :: "Token list \<Rightarrow> nat \<Rightarrow> string list \<Rightarrow> error + string list \<times> nat" where
  "parameter_loop tokens i parameters =
     (if \<not> match tokens i Separator \<or> getValue (currentToken tokens i) \<noteq> '')'' then
        (if match tokens i Identifier then
           (let paramType = getValue (currentToken tokens i); i1 = advanceToken tokens i in
            if \<not> match tokens i1 Identifier then
              Inl (RuntimeError ''Expected parameter name after type in function declaration'')
            else
              (let paramName = getValue (currentToken tokens i1);
                   i2 = advanceToken tokens i1;
                   parameters1 = parameters @ [paramType @ '' '' @ paramName] in
               if match tokens i2 Separator \<and> getValue (currentToken tokens i2) = '',''
               then parameter_loop tokens (advanceToken tokens i2) parameters1
               else Inr (parameters1, i2)))
         else Inl (RuntimeError ''Expected parameter type in function declaration''))
      else Inr (parameters, i))"
  by pat_completeness auto
termination
  by (relation "measure (\<lambda>(tokens, i, ps). length tokens - i)")
     (auto simp: advanceToken_def dest: match_in_range)

declare parameter_loop.simps [simp del]

function (domintros)
  parseStatement :: "Token list \<Rightarrow> nat \<Rightarrow> error + Statement \<times> nat"
  and parseBlockStatement :: "Token list \<Rightarrow> nat \<Rightarrow> error + Statement \<times> nat"
  and block_loop :: "Token list \<Rightarrow> nat \<Rightarrow> Statement list \<Rightarrow> error + Statement \<times> nat"
  and parseIfStatement :: "Token list \<Rightarrow> nat \<Rightarrow> error + Statement \<times> nat"
  and parseVariableDeclaration :: "Token list \<Rightarrow> nat \<Rightarrow> error + Statement \<times> nat"
  and parseFunctionDeclaration ::
    "Token list \<Rightarrow> nat \<Rightarrow> string \<Rightarrow> string \<Rightarrow> error + Statement \<times> nat"
  and body_loop ::
    "Token list \<Rightarrow> nat \<Rightarrow> string \<Rightarrow> string \<Rightarrow> string list \<Rightarrow> Statement list
       \<Rightarrow> error + Statement \<times> nat" where
  "parseStatement tokens i =
     (if match tokens i Separator \<and> getValue (currentToken tokens i) = ''{'' then
        parseBlockStatement tokens i
      else if match tokens i Keyword then
        (let v = getValue (currentToken tokens i) in
         if v = ''int'' \<or> v = ''float'' \<or> v = ''char'' \<or> v = ''std::string'' then
           parseVariableDeclaration tokens i
         else if v = ''return'' then parseReturn tokens i
         else if v = ''if'' then parseIfStatement tokens i
         else Inl (RuntimeError (''Unexpected token: '' @ tokenToString (currentToken tokens i))))
      else if match tokens i Identifier then parseAssignmentOrFunctionCall tokens i
      else Inl (RuntimeError (''Unexpected token: '' @ tokenToString (currentToken tokens i))))"
| "parseBlockStatement tokens i = block_loop tokens (advanceToken tokens i) []"
| "block_loop tokens i statements =
     (if \<not> match tokens i Separator \<or> getValue (currentToken tokens i) \<noteq> ''}'' then
        (case parseStatement tokens i of
           Inl e \<Rightarrow> Inl e
         | Inr (stmt, i1) \<Rightarrow> block_loop tokens i1 (statements @ [stmt]))
      else Inr (BlockStatement statements, advanceToken tokens i))"
| "parseIfStatement tokens i =
     (let i1 = advanceToken tokens i in
      if \<not> match tokens i1 Separator \<or> getValue (currentToken tokens i1) \<noteq> ''('' then
        Inl (RuntimeError (''Expected '' @ [CHR 0x27] @ ''('' @ [CHR 0x27] @ '' after ''
                            @ [CHR 0x27] @ ''if'' @ [CHR 0x27]))
      else
        (let i2 = advanceToken tokens i1 in
         case parseExpression tokens i2 of
           Inl e \<Rightarrow> Inl e
         | Inr (condition, i3) \<Rightarrow>
            if \<not> match tokens i3 Separator \<or> getValue (currentToken tokens i3) \<noteq> '')'' then
              Inl (RuntimeError (''Expected '' @ [CHR 0x27] @ '')'' @ [CHR 0x27] @ '' after ''
                                  @ [CHR 0x27] @ ''if'' @ [CHR 0x27] @ '' condition''))
            else
              (let i4 = advanceToken tokens i3 in
               case parseStatement tokens i4 of
                 Inl e \<Rightarrow> Inl e
               | Inr (thenBranch, i5) \<Rightarrow>
                  if match tokens i5 Keyword \<and> getValue (currentToken tokens i5) = ''else'' then
                    (case parseStatement tokens (advanceToken tokens i5) of
                       Inl e \<Rightarrow> Inl e
                     | Inr (elseBranch, i6) \<Rightarrow>
                        Inr (IfStatement condition thenBranch (Some elseBranch), i6))
                  else Inr (IfStatement condition thenBranch None, i5))))"
| "parseVariableDeclaration tokens i =
     (let ty = getValue (currentToken tokens i); i1 = advanceToken tokens i in
      if \<not> match tokens i1 Identifier then
        Inl (RuntimeError ''Expected identifier after type in variable declaration'')
      else
        (let name = getValue (currentToken tokens i1); i2 = advanceToken tokens i1 in
         if match tokens i2 Separator \<and> getValue (currentToken tokens i2) = ''('' then
           parseFunctionDeclaration tokens i2 ty name
         else
           (case (if match tokens i2 Operator \<and> getValue (currentToken tokens i2) = ''=''
                  then (case parseExpression tokens (advanceToken tokens i2) of
                          Inl e \<Rightarrow> Inl e
                        | Inr (ini, i3) \<Rightarrow> Inr (Some ini, i3))
                  else Inr (None, i2)) of
              Inl e \<Rightarrow> Inl e
            | Inr (initializer, i4) \<Rightarrow>
               if \<not> match tokens i4 Separator \<or> getValue (currentToken tokens i4) \<noteq> '';'' then
                 Inl (RuntimeError (''Expected '' @ [CHR 0x27] @ '';'' @ [CHR 0x27]
                                     @ '' after variable declaration''))
               else Inr (VariableDeclaration ty name initializer, advanceToken tokens i4))))"
| "parseFunctionDeclaration tokens i returnType name =
     (let i1 = advanceToken tokens i in
      case parameter_loop tokens i1 [] of
        Inl e \<Rightarrow> Inl e
      | Inr (parameters, i2) \<Rightarrow>
         if \<not> match tokens i2 Separator \<or> getValue (currentToken tokens i2) \<noteq> '')'' then
           Inl (RuntimeError (''Expected '' @ [CHR 0x27] @ '')'' @ [CHR 0x27]
                               @ '' after function parameters''))
         else
           (let i3 = advanceToken tokens i2 in
            if \<not> match tokens i3 Separator \<or> getValue (currentToken tokens i3) \<noteq> ''{'' then
              Inl (RuntimeError (''Expected '' @ [CHR 0x27] @ ''{'' @ [CHR 0x27]
                                  @ '' at the beginning of function body''))
            else body_loop tokens (advanceToken tokens i3) returnType name parameters []))"
| "body_loop tokens i returnType name parameters body =
     (if \<not> match tokens i Separator \<or> getValue (currentToken tokens i) \<noteq> ''}'' then
        (case parseStatement tokens i of
           Inl e \<Rightarrow> Inl e
         | Inr (stmt, i1) \<Rightarrow> body_loop tokens i1 returnType name parameters (body @ [stmt]))
      else Inr (FunctionDeclaration returnType name parameters body, advanceToken tokens i))"
  by pat_completeness auto



abbreviation parser_dom where
  "parser_dom \<equiv>
     parseStatement_parseBlockStatement_block_loop_parseIfStatement_parseVariableDeclaration_parseFunctionDeclaration_body_loop_dom"

lemma match_advance: "match tokens i ty \<Longrightarrow> ty \<noteq> EndOfFile \<Longrightarrow> advanceToken tokens i = Suc i"
  by (frule (1) match_in_range) (simp add: advanceToken_def)

lemma le_advanceToken: "x \<le> i \<Longrightarrow> x \<le> advanceToken tokens i"
  by (simp add: advanceToken_def)

lemma parseExpression_progress: "parseExpression tokens i = Inr (e, i') \<Longrightarrow> i < i'"
  unfolding parseExpression_def by (rule parseBinaryExpression_progress)

lemma parseReturn_progress:
  assumes "parseReturn tokens i = Inr (s, i')"
  shows "advanceToken tokens i \<le> i'"
proof -
  from assms obtain v i2 where "parseExpression tokens (advanceToken tokens i) = Inr (v, i2)"
    and "i' = advanceToken tokens i2"
    by (auto simp: parseReturn_def Let_def split: sum.splits if_splits)
  then show ?thesis
    using parseExpression_progress [of tokens "advanceToken tokens i" v i2]
      advanceToken_le [of i2 tokens] by simp
qed

lemma parseAssignmentOrFunctionCall_progress:
  assumes "parseAssignmentOrFunctionCall tokens i = Inr (s, i')"
  shows "advanceToken tokens i \<le> i'"
proof -
  from assms obtain v i3 where
    "parseExpression tokens (advanceToken tokens (advanceToken tokens i)) = Inr (v, i3)"
    and "i' = advanceToken tokens i3"
    by (auto simp: parseAssignmentOrFunctionCall_def Let_def split: sum.splits if_splits)
  then show ?thesis
    using parseExpression_progress [of tokens "advanceToken tokens (advanceToken tokens i)" v i3]
      advanceToken_le [of i3 tokens] advanceToken_le [of "advanceToken tokens i" tokens]
    by simp
qed

lemma parameter_loop_progress:
  "parameter_loop tokens i ps = Inr (ps', i') \<Longrightarrow> i \<le> i'"
proof (induction tokens i ps rule: parameter_loop.induct)
  case (1 tokens i parameters)
  show ?case
    using 1(1) [OF _ _ refl refl _ refl refl refl] 1(2)
      advanceToken_le [of i tokens] advanceToken_le [of "advanceToken tokens i" tokens]
      advanceToken_le [of "advanceToken tokens (advanceToken tokens i)" tokens]
    by (auto simp: parameter_loop.simps [of tokens i parameters] Let_def split: if_splits)
qed

lemma parseStatement_progress_dom:
  "parser_dom (Inl (Inl (tokens, i))) \<Longrightarrow>
     \<forall>s i'. parseStatement tokens i = Inr (s, i') \<longrightarrow> i < i' \<and> i < length tokens"
  "parser_dom (Inl (Inr (Inl (tokens, i)))) \<Longrightarrow>
     \<forall>s i'. parseBlockStatement tokens i = Inr (s, i') \<longrightarrow> advanceToken tokens i \<le> i'"
  "parser_dom (Inl (Inr (Inr (tokens, i, statements)))) \<Longrightarrow>
     \<forall>s i'. block_loop tokens i statements = Inr (s, i') \<longrightarrow> i \<le> i'"
  "parser_dom (Inr (Inl (Inl (tokens, i)))) \<Longrightarrow>
     \<forall>s i'. parseIfStatement tokens i = Inr (s, i') \<longrightarrow> advanceToken tokens i \<le> i'"
  "parser_dom (Inr (Inl (Inr (tokens, i)))) \<Longrightarrow>
     \<forall>s i'. parseVariableDeclaration tokens i = Inr (s, i') \<longrightarrow> advanceToken tokens i \<le> i'"
  "parser_dom (Inr (Inr (Inl (tokens, i, returnType, name)))) \<Longrightarrow>
     \<forall>s i'. parseFunctionDeclaration tokens i returnType name = Inr (s, i') \<longrightarrow> i \<le> i'"
  "parser_dom (Inr (Inr (Inr (tokens, i, returnType, name, parameters, body)))) \<Longrightarrow>
     \<forall>s i'. body_loop tokens i returnType name parameters body = Inr (s, i') \<longrightarrow> i \<le> i'"
proof (induct rule: parseStatement_parseBlockStatement_block_loop_parseIfStatement_parseVariableDeclaration_parseFunctionDeclaration_body_loop.pinduct)
  case (1 tokens i)
  show ?case
  proof (intro allI impI)
    fix s i'
    assume r: "parseStatement tokens i = Inr (s, i')"
    have "i < length tokens \<and> advanceToken tokens i \<le> i'"
      using r 1(1) 1(2) 1(3) [OF _ _ refl] 1(4) [OF _ _ refl]
      by (auto simp: parseStatement.psimps Let_def match_in_range
               dest: parseReturn_progress parseAssignmentOrFunctionCall_progress
               split: if_splits)
    then show "i < i' \<and> i < length tokens"
      by (auto simp: advanceToken_def)
  qed
next
  case (2 tokens i)
  then show ?case by (simp add: parseBlockStatement.psimps)
next
  case (3 tokens i statements)
  show ?case
  proof (intro allI impI)
    fix s i'
    assume r: "block_loop tokens i statements = Inr (s, i')"
    show "i \<le> i'"
    proof (cases "\<not> match tokens i Separator \<or> getValue (currentToken tokens i) \<noteq> ''}''")
      case True
      with r 3(1) obtain stmt i1 where p: "parseStatement tokens i = Inr (stmt, i1)"
        and l: "block_loop tokens i1 (statements @ [stmt]) = Inr (s, i')"
        by (auto simp: block_loop.psimps split: sum.splits)
      from 3(2) [OF True] p have "i < i1" by blast
      moreover from 3(3) [OF True p refl] l have "i1 \<le> i'" by blast
      ultimately show ?thesis by simp
    next
      case False
      with r 3(1) show ?thesis
        by (auto simp: block_loop.psimps advanceToken_le)
    qed
  qed
next
  case (4 tokens i)
  show ?case
  proof (intro allI impI)
    fix s i'
    assume r: "parseIfStatement tokens i = Inr (s, i')"
    define i1 where "i1 = advanceToken tokens i"
    define i2 where "i2 = advanceToken tokens i1"
    from r 4(1) have g1: "\<not> (\<not> match tokens i1 Separator \<or> getValue (currentToken tokens i1) \<noteq> ''('')"
      by (auto simp: parseIfStatement.psimps Let_def i1_def split: if_splits)
    with r 4(1) obtain condition i3 where pe: "parseExpression tokens i2 = Inr (condition, i3)"
      by (auto simp: parseIfStatement.psimps Let_def i1_def i2_def split: if_splits sum.splits)
    with r 4(1) g1 have g3: "\<not> (\<not> match tokens i3 Separator \<or> getValue (currentToken tokens i3) \<noteq> '')'')"
      by (auto simp: parseIfStatement.psimps Let_def i1_def i2_def split: if_splits sum.splits)
    define i4 where "i4 = advanceToken tokens i3"
    from r 4(1) g1 pe g3 obtain thenBranch i5 where
      ps: "parseStatement tokens i4 = Inr (thenBranch, i5)"
      by (auto simp: parseIfStatement.psimps Let_def i1_def i2_def i4_def
               split: if_splits sum.splits)
    have a: "i1 \<le> i2" "i2 < i3" "i3 \<le> i4"
      using pe by (auto simp: i2_def i4_def advanceToken_le dest: parseExpression_progress)
    have b: "i4 < i5"
      using 4(2) [OF i1_def g1 i2_def pe refl g3 i4_def] ps by blast
    show "advanceToken tokens i \<le> i'"
    proof (cases "match tokens i5 Keyword \<and> getValue (currentToken tokens i5) = ''else''")
      case True
      with r 4(1) g1 pe g3 ps obtain elseBranch where
        pe2: "parseStatement tokens (advanceToken tokens i5) = Inr (elseBranch, i')"
        by (auto simp: parseIfStatement.psimps Let_def i1_def i2_def i4_def
                 split: if_splits sum.splits)
      from 4(3) [OF i1_def g1 i2_def pe refl g3 i4_def ps refl True] pe2
      have "advanceToken tokens i5 < i'" by blast
      then show ?thesis
        using a b advanceToken_le [of i5 tokens] by (simp add: i1_def)
    next
      case False
      with r 4(1) g1 pe g3 ps have "i' = i5"
        by (auto simp: parseIfStatement.psimps Let_def i1_def i2_def i4_def
                 split: if_splits sum.splits)
      then show ?thesis using a b by (simp add: i1_def)
    qed
  qed
next
  case (5 tokens i)
  show ?case
  proof (intro allI impI)
    fix s i'
    assume r: "parseVariableDeclaration tokens i = Inr (s, i')"
    define i1 where "i1 = advanceToken tokens i"
    define i2 where "i2 = advanceToken tokens i1"
    from r 5(1) have g1: "\<not> \<not> match tokens i1 Identifier"
      by (auto simp: parseVariableDeclaration.psimps Let_def i1_def split: if_splits)
    have a: "i1 \<le> i2" by (simp add: i2_def advanceToken_le)
    show "advanceToken tokens i \<le> i'"
    proof (cases "match tokens i2 Separator \<and> getValue (currentToken tokens i2) = ''(''")
      case True
      with r 5(1) g1 have
        "parseFunctionDeclaration tokens i2 (getValue (currentToken tokens i))
           (getValue (currentToken tokens i1)) = Inr (s, i')"
        by (auto simp: parseVariableDeclaration.psimps Let_def i1_def i2_def)
      with 5(2) [OF refl i1_def g1 refl i2_def True] have "i2 \<le> i'" by blast
      with a show ?thesis by (simp add: i1_def)
    next
      case False
      with r 5(1) g1 have "i2 \<le> i'"
        using advanceToken_le [of i2 tokens]
        by (auto simp: parseVariableDeclaration.psimps Let_def i1_def i2_def
                 split: if_splits sum.splits
                 dest!: parseExpression_progress intro!: le_advanceToken)
      with a show ?thesis by (simp add: i1_def)
    qed
  qed
next
  case (6 tokens i returnType name)
  show ?case
  proof (intro allI impI)
    fix s i'
    assume r: "parseFunctionDeclaration tokens i returnType name = Inr (s, i')"
    define i1 where "i1 = advanceToken tokens i"
    from r 6(1) obtain parameters i2 where pl: "parameter_loop tokens i1 [] = Inr (parameters, i2)"
      by (auto simp: parseFunctionDeclaration.psimps Let_def i1_def split: sum.splits)
    with r 6(1) have g2: "\<not> (\<not> match tokens i2 Separator \<or> getValue (currentToken tokens i2) \<noteq> '')'')"
      by (auto simp: parseFunctionDeclaration.psimps Let_def i1_def split: sum.splits if_splits)
    define i3 where "i3 = advanceToken tokens i2"
    from r 6(1) pl g2 have g3: "\<not> (\<not> match tokens i3 Separator \<or> getValue (currentToken tokens i3) \<noteq> ''{'')"
      by (auto simp: parseFunctionDeclaration.psimps Let_def i1_def i3_def
               split: sum.splits if_splits)
    with r 6(1) pl g2 have
      bl: "body_loop tokens (advanceToken tokens i3) returnType name parameters [] = Inr (s, i')"
      by (auto simp: parseFunctionDeclaration.psimps Let_def i1_def i3_def
               split: sum.splits if_splits)
    from 6(2) [OF i1_def pl refl g2 i3_def g3] bl have "advanceToken tokens i3 \<le> i'" by blast
    moreover have "i \<le> i1" "i1 \<le> i2" "i2 \<le> i3" "i3 \<le> advanceToken tokens i3"
      using pl by (auto simp: i1_def i3_def advanceToken_le dest: parameter_loop_progress)
    ultimately show "i \<le> i'" by simp
  qed
next
  case (7 tokens i returnType name parameters body)
  show ?case
  proof (intro allI impI)
    fix s i'
    assume r: "body_loop tokens i returnType name parameters body = Inr (s, i')"
    show "i \<le> i'"
    proof (cases "\<not> match tokens i Separator \<or> getValue (currentToken tokens i) \<noteq> ''}''")
      case True
      with r 7(1) obtain stmt i1 where p: "parseStatement tokens i = Inr (stmt, i1)"
        and l: "body_loop tokens i1 returnType name parameters (body @ [stmt]) = Inr (s, i')"
        by (auto simp: body_loop.psimps split: sum.splits)
      from 7(2) [OF True] p have "i < i1" by blast
      moreover from 7(3) [OF True p refl] l have "i1 \<le> i'" by blast
      ultimately show ?thesis by simp
    next
      case False
      with r 7(1) show ?thesis
        by (auto simp: body_loop.psimps advanceToken_le)
    qed
  qed
qed


text \<open>The measure of the termination proof: four times the number of tokens left, plus a rank
  that orders the calls which consume no token.\<close>

definition parser_measure ::
  "((Token list \<times> nat) + (Token list \<times> nat) + (Token list \<times> nat \<times> Statement list))
   + ((Token list \<times> nat) + (Token list \<times> nat))
   + (Token list \<times> nat \<times> string \<times> string)
   + (Token list \<times> nat \<times> string \<times> string \<times> string list \<times> Statement list) \<Rightarrow> nat" where
  "parser_measure x =
     (case x of
        Inl (Inl (tokens, i)) \<Rightarrow> 4 * (length tokens - i) + 2
      | Inl (Inr (Inl (tokens, i))) \<Rightarrow> (if i < length tokens then 4 * (length tokens - i) + 1 else 4)
      | Inl (Inr (Inr (tokens, i, statements))) \<Rightarrow> 4 * (length tokens - i) + 3
      | Inr (Inl (Inl (tokens, i))) \<Rightarrow> 4 * (length tokens - i) + 1
      | Inr (Inl (Inr (tokens, i))) \<Rightarrow> 4 * (length tokens - i) + 1
      | Inr (Inr (Inl (tokens, i, returnType, name))) \<Rightarrow> 4 * (length tokens - i) + 1
      | Inr (Inr (Inr (tokens, i, returnType, name, parameters, body))) \<Rightarrow>
          4 * (length tokens - i) + 3)"

lemma parseStatement_progress_dom1:
  assumes "parser_dom (Inl (Inl (tokens, i)))" and "parseStatement tokens i = Inr (s, i')"
  shows "i < i' \<and> i < length tokens"
  using parseStatement_progress_dom(1) [OF assms(1)] assms(2) by blast

lemma match_Separator_in_range: "match tokens i Separator \<Longrightarrow> i < length tokens"
  and match_Identifier_in_range: "match tokens i Identifier \<Longrightarrow> i < length tokens"
  and match_Keyword_in_range: "match tokens i Keyword \<Longrightarrow> i < length tokens"
  by (auto dest: match_in_range)

termination parseStatement
proof (relation "measure parser_measure")
  show "wf (measure parser_measure)" by simp
qed (auto simp: parser_measure_def advanceToken_def
      dest!: parseStatement_progress_dom1 parseExpression_progress parameter_loop_progress
             match_Separator_in_range match_Identifier_in_range match_Keyword_in_range
      split: if_splits)

declare parseStatement.simps [simp del] parseBlockStatement.simps [simp del]
  block_loop.simps [simp del] parseIfStatement.simps [simp del]
  parseVariableDeclaration.simps [simp del] parseFunctionDeclaration.simps [simp del]
  body_loop.simps [simp del]

text \<open>\<^verbatim>\<open>parse()\<close>: one statement is parsed from the first token on, then checked against a
  fresh symbol table. The statement is returned; the cursor and the table are dropped.\<close>

definition parse :: "Token list \<Rightarrow> error + Statement" where
  "parse tokens =
     (case parseStatement tokens 0 of
        Inl e \<Rightarrow> Inl e
      | Inr (ast, i) \<Rightarrow>
         (case checkSemantics ast Map.empty of
            Inl e \<Rightarrow> Inl e
          | Inr symTable \<Rightarrow> Inr ast))"

section \<open>Three-address code (IRGenerator.cpp)\<close>

datatype TACInstruction =
  TACInstruction (op: string) (arg1: string) (arg2: string) (result: string)

text \<open>The generator's fields. \<^verbatim>\<open>tempVarCount\<close> is an \<^verbatim>\<open>int\<close> that only grows from 0; the
  model does not bound it.\<close>

record IRGenerator =
  code :: "TACInstruction list"
  tempVarCount :: nat

definition newIRGenerator :: IRGenerator where
  "newIRGenerator = \<lparr>code = [], tempVarCount = 0\<rparr>"

definition emit :: "TACInstruction \<Rightarrow> IRGenerator \<Rightarrow> IRGenerator" where
  "emit ins g = g\<lparr>code := code g @ [ins]\<rparr>"

definition getNewTempVar :: "IRGenerator \<Rightarrow> string \<times> IRGenerator" where
  "getNewTempVar g = (''t'' @ to_string (tempVarCount g), g\<lparr>tempVarCount := tempVarCount g + 1\<rparr>)"

text \<open>\<^verbatim>\<open>generateExpression\<close> returns the operand that holds the value (the out-parameter
  \<^verbatim>\<open>resultVar\<close>) and the generator.\<close>

fun generateExpression :: "Expression \<Rightarrow> IRGenerator \<Rightarrow> string \<times> IRGenerator" where
  "generateExpression (BinaryExpression l opr r) g =
     (let (leftVar, g1) = generateExpression l g;
          (rightVar, g2) = generateExpression r g1;
          (resultVar, g3) = getNewTempVar g2
      in (resultVar, emit (TACInstruction (opToString opr) leftVar rightVar resultVar) g3))"
| "generateExpression (LiteralExpression v) g = (v, g)"
| "generateExpression (VariableExpression name) g = (name, g)"

definition endsWithRet :: "IRGenerator \<Rightarrow> bool" where
  "endsWithRet g = (code g \<noteq> [] \<and> op (last (code g)) = ''RET'')"

text \<open>\<^verbatim>\<open>generateStatement\<close>. \<open>generateStatements\<close> is the loop over the statements of a
  block, \<open>generateBody\<close> the loop over a function's body, which leaves the function as soon
  as the last instruction is a \<^verbatim>\<open>RET\<close> and appends one at the end otherwise.\<close>

fun generateStatement :: "Statement \<Rightarrow> IRGenerator \<Rightarrow> IRGenerator"
  and generateStatements :: "Statement list \<Rightarrow> IRGenerator \<Rightarrow> IRGenerator"
  and generateBody :: "Statement list \<Rightarrow> IRGenerator \<Rightarrow> IRGenerator" where
  "generateStatement (VariableDeclaration ty name initializer) g =
     (case initializer of
        None \<Rightarrow> g
      | Some ini \<Rightarrow>
         (let (tempVar, g1) = generateExpression ini g
          in emit (TACInstruction ''MOV'' tempVar [] name) g1))"
| "generateStatement (AssignmentStatement name val) g =
     (let (tempVar, g1) = generateExpression val g
      in emit (TACInstruction ''MOV'' tempVar [] name) g1)"
| "generateStatement (IfStatement condition thenBranch elseBranch) g =
     (let (conditionVar, g1) = generateExpression condition g;
          g2 = emit (TACInstruction ''IF_FALSE'' conditionVar [] ''L1'') g1;
          g3 = generateStatement thenBranch g2;
          g4 = emit (TACInstruction ''GOTO'' [] [] ''L2'') g3;
          g5 = emit (TACInstruction ''LABEL'' [] [] ''L1'') g4;
          g6 = (case elseBranch of None \<Rightarrow> g5 | Some els \<Rightarrow> generateStatement els g5)
      in emit (TACInstruction ''LABEL'' [] [] ''L2'') g6)"
| "generateStatement (BlockStatement statements) g = generateStatements statements g"
| "generateStatement (ReturnStatement val) g =
     (case val of
        Some returnValue \<Rightarrow>
         (let (tempVar, g1) = generateExpression returnValue g
          in emit (TACInstruction ''RET'' tempVar [] []) g1)
      | None \<Rightarrow> emit (TACInstruction ''RET'' [] [] []) g)"
| "generateStatement (FunctionDeclaration returnType name parameters body) g =
     generateBody body (emit (TACInstruction ''LABEL'' [] [] name) g)"
| "generateStatements [] g = g"
| "generateStatements (stmt # rest) g = generateStatements rest (generateStatement stmt g)"
| "generateBody [] g =
     (if \<not> endsWithRet g then emit (TACInstruction ''RET'' [] [] []) g else g)"
| "generateBody (stmt # rest) g =
     (let g1 = generateStatement stmt g
      in if endsWithRet g1 then g1 else generateBody rest g1)"

text \<open>\<^verbatim>\<open>generateCode\<close>: a block at the root is lowered statement by statement, any other
  root by \<^verbatim>\<open>generateStatement\<close>.\<close>

definition generateCode :: "Statement \<Rightarrow> IRGenerator \<Rightarrow> IRGenerator" where
  "generateCode ast g =
     (case ast of
        BlockStatement statements \<Rightarrow> generateStatements statements g
      | _ \<Rightarrow> generateStatement ast g)"

section \<open>The pipeline (Compiler.cpp)\<close>

text \<open>\<^verbatim>\<open>Compiler::compile\<close> without the two files: from the source text to the instructions
  that would be written.\<close>

definition compile :: "string \<Rightarrow> error + TACInstruction list" where
  "compile sourceCode =
     (case tokenize sourceCode of
        Inl e \<Rightarrow> Inl e
      | Inr tokens \<Rightarrow>
         (case parse tokens of
            Inl e \<Rightarrow> Inl e
          | Inr ast \<Rightarrow> Inr (code (generateCode ast newIRGenerator))))"

section \<open>Claims settled by running the pipeline\<close>



text \<open>C2: the code at the inputs where it leaves the claim. The loop of \<^verbatim>\<open>tokenize()\<close> runs only
  while the index is inside the buffer, so a source that ends with the last character of a token
  gets no EndOfFile token, and the empty source gets no token at all; with a blank behind the
  last token the EndOfFile token is there.\<close>

theorem tokenize_without_EndOfFile:
  "tokenize ''int x;''
     = Inr [Token Keyword ''int'' 1 1, Token Identifier ''x'' 1 5, Token Separator '';'' 1 6]
   \<and> tokenize [] = Inr []
   \<and> tokenize ''int x; ''
     = Inr [Token Keyword ''int'' 1 1, Token Identifier ''x'' 1 5, Token Separator '';'' 1 6,
            Token EndOfFile [] 1 8]"
  by code_simp

text \<open>C9: the code at the input where it leaves the claim. The source
  \<^verbatim>\<open>char c = '\'';\<close> is accepted by \<^verbatim>\<open>parse()\<close>; \<^verbatim>\<open>characterLiteral()\<close> skips the escaped quote
  without appending it, so the literal's lexeme is the three characters quote, backslash, quote.
  Its pretty-printed form is that lexeme, and the lexer rejects it.\<close>

theorem escaped_character_literal_not_relexed:
  "tokenize (''char c = '' @ [CHR 0x27, CHR 0x5C, CHR 0x27, CHR 0x27] @ '';'')
     = Inr [Token Keyword ''char'' 1 1, Token Identifier ''c'' 1 6, Token Operator ''='' 1 8,
            Token CharacterLiteral [CHR 0x27, CHR 0x5C, CHR 0x27] 1 10, Token Separator '';'' 1 14]
   \<and> parse [Token Keyword ''char'' 1 1, Token Identifier ''c'' 1 6, Token Operator ''='' 1 8,
            Token CharacterLiteral [CHR 0x27, CHR 0x5C, CHR 0x27] 1 10, Token Separator '';'' 1 14]
     = Inr (VariableDeclaration ''char'' ''c''
              (Some (LiteralExpression [CHR 0x27, CHR 0x5C, CHR 0x27])))
   \<and> toString (LiteralExpression [CHR 0x27, CHR 0x5C, CHR 0x27]) = [CHR 0x27, CHR 0x5C, CHR 0x27]
   \<and> tokenize [CHR 0x27, CHR 0x5C, CHR 0x27]
     = Inl (RuntimeError ''Expected closing single quote for character literal'')"
  by code_simp

section \<open>Claims about the semantic checks\<close>

text \<open>The variables an expression refers to, from left to right.\<close>

fun variablesOf :: "Expression \<Rightarrow> string list" where
  "variablesOf (BinaryExpression l opr r) = variablesOf l @ variablesOf r"
| "variablesOf (LiteralExpression v) = []"
| "variablesOf (VariableExpression name) = [name]"

lemma checkExpression_accepts_iff:
  "(checkExpression symTable e = Inr ()) = (set (variablesOf e) \<subseteq> dom symTable)"
  by (induction e) (auto simp: lookupVariable_def split: sum.splits option.splits)

lemma checkExpression_error:
  "checkExpression symTable e = Inl err \<Longrightarrow>
     \<exists>v \<in> set (variablesOf e). symTable v = None
        \<and> err = RuntimeError (''Variable '' @ [CHR 0x27] @ v @ [CHR 0x27] @ '' is not declared'')"
  by (induction e) (auto simp: lookupVariable_def split: sum.splits option.splits)

text \<open>C3: when both operands of a binary expression have a type, \<open>L\<close> and \<open>R\<close>, its type is
  \<^verbatim>\<open>bool\<close> for the operators And and Or whatever \<open>L\<close> and \<open>R\<close> are; otherwise \<^verbatim>\<open>float\<close> when one
  operand is \<^verbatim>\<open>int\<close> and the other \<^verbatim>\<open>float\<close>; otherwise \<open>L\<close> when \<open>L = R\<close>; otherwise the error
  "Type mismatch in binary expression".\<close>

theorem getTypeOf_BinaryExpression:
  assumes "getTypeOf symTable l = Inr L" and "getTypeOf symTable r = Inr R"
  shows "getTypeOf symTable (BinaryExpression l opr r) =
           (if opr = And \<or> opr = Or then Inr ''bool''
            else if {L, R} = {''int'', ''float''} then Inr ''float''
            else if L = R then Inr L
            else Inl (RuntimeError (''Type mismatch in binary expression: '' @ L @ '' ''
                                     @ opToString opr @ '' '' @ R)))"
  using assms by (auto simp: doubleton_eq_iff)

text \<open>C3, witness: with \<open>a\<close> and \<open>b\<close> declared \<^verbatim>\<open>int\<close>, the comparison \<^verbatim>\<open>a < b\<close> has type
  \<^verbatim>\<open>int\<close>, not \<^verbatim>\<open>bool\<close>.\<close>

theorem getTypeOf_BinaryExpression_witness:
  "getTypeOf [''a'' \<mapsto> ''int'', ''b'' \<mapsto> ''int''] (VariableExpression ''a'') = Inr ''int''
   \<and> getTypeOf [''a'' \<mapsto> ''int'', ''b'' \<mapsto> ''int''] (VariableExpression ''b'') = Inr ''int''
   \<and> getTypeOf [''a'' \<mapsto> ''int'', ''b'' \<mapsto> ''int'']
         (BinaryExpression (VariableExpression ''a'') LessThan (VariableExpression ''b''))
       = Inr ''int''"
proof -
  let ?st = "[''a'' \<mapsto> ''int'', ''b'' \<mapsto> ''int'']"
  have a: "getTypeOf ?st (VariableExpression ''a'') = Inr ''int''"
    by (simp add: lookupVariable_def)
  have b: "getTypeOf ?st (VariableExpression ''b'') = Inr ''int''"
    by (simp add: lookupVariable_def)
  show ?thesis
    using a b getTypeOf_BinaryExpression [OF a b, of LessThan] by simp
qed

text \<open>C6: a declaration with an initializer whose type is known, and an assignment whose
  value's type is known, follow the same rule: an \<^verbatim>\<open>int\<close> value is accepted for a \<^verbatim>\<open>float\<close>
  target; a \<^verbatim>\<open>float\<close> value for an \<^verbatim>\<open>int\<close> target fails with "Cannot assign float to int
  without explicit cast"; any other pair is accepted exactly when the two types are equal and
  fails with a type-mismatch error otherwise.\<close>

theorem assignability_rules:
  "(symTable name = None \<longrightarrow>
    checkExpression (symTable(name \<mapsto> ty)) ini = Inr () \<longrightarrow>
    getTypeOf (symTable(name \<mapsto> ty)) ini = Inr initType \<longrightarrow>
    checkSemantics (VariableDeclaration ty name (Some ini)) symTable =
      (if initType = ''int'' \<and> ty = ''float'' then Inr (symTable(name \<mapsto> ty))
       else if initType = ''float'' \<and> ty = ''int'' then
         Inl (RuntimeError ''Cannot assign float to int without explicit cast'')
       else if initType = ty then Inr (symTable(name \<mapsto> ty))
       else Inl (RuntimeError (''Type mismatch: Cannot initialize variable of type ''
                   @ [CHR 0x27] @ ty @ [CHR 0x27] @ '' with value of type ''
                   @ [CHR 0x27] @ initType @ [CHR 0x27]))))
   \<and> (symTable' target = Some varType \<longrightarrow>
    checkExpression symTable' val = Inr () \<longrightarrow>
    getTypeOf symTable' val = Inr valueType \<longrightarrow>
    checkSemantics (AssignmentStatement target val) symTable' =
      (if valueType = ''int'' \<and> varType = ''float'' then Inr symTable'
       else if valueType = ''float'' \<and> varType = ''int'' then
         Inl (RuntimeError ''Cannot assign float to int without explicit cast'')
       else if valueType = varType then Inr symTable'
       else Inl (RuntimeError (''Type mismatch in assignment: Cannot assign ''
                   @ valueType @ '' to '' @ varType))))"
  by (auto simp: declareVariable_def lookupVariable_def)

text \<open>C6, witness: \<^verbatim>\<open>float y = 3;\<close> is accepted, and \<^verbatim>\<open>x = 1.5;\<close> with \<open>x\<close> declared \<^verbatim>\<open>int\<close> is
  rejected.\<close>

theorem assignability_rules_witness:
  "Map.empty ''y'' = (None :: string option)
   \<and> checkExpression [''y'' \<mapsto> ''float''] (LiteralExpression ''3'') = Inr ()
   \<and> getTypeOf [''y'' \<mapsto> ''float''] (LiteralExpression ''3'') = Inr ''int''
   \<and> checkSemantics (VariableDeclaration ''float'' ''y'' (Some (LiteralExpression ''3''))) Map.empty
       = Inr [''y'' \<mapsto> ''float'']
   \<and> [''x'' \<mapsto> ''int''] ''x'' = Some ''int''
   \<and> checkExpression [''x'' \<mapsto> ''int''] (LiteralExpression ''1.5'') = Inr ()
   \<and> getTypeOf [''x'' \<mapsto> ''int''] (LiteralExpression ''1.5'') = Inr ''float''
   \<and> checkSemantics (AssignmentStatement ''x'' (LiteralExpression ''1.5'')) [''x'' \<mapsto> ''int'']
       = Inl (RuntimeError ''Cannot assign float to int without explicit cast'')"
proof -
  have a: "getTypeOf [''y'' \<mapsto> ''float''] (LiteralExpression ''3'') = Inr ''int''"
    by (simp add: isCharacterLiteral_def isStringLiteral_def isFloatingPointLiteral_def)
  have b: "getTypeOf [''x'' \<mapsto> ''int''] (LiteralExpression ''1.5'') = Inr ''float''"
    by (simp add: isCharacterLiteral_def isStringLiteral_def isFloatingPointLiteral_def)
  show ?thesis
    using a b
      assignability_rules [of Map.empty "''y''" "''float''" "LiteralExpression ''3''" "''int''"
        "[''x'' \<mapsto> ''int'']" "''x''" "''int''" "LiteralExpression ''1.5''" "''float''"]
    by simp
qed

text \<open>C10: the check of a return statement with a value succeeds exactly when every variable
  of the value is declared, whatever the types are, and when it fails the error is the
  undeclared variable's; the type of the value is never computed.\<close>

theorem checkSemantics_ReturnStatement:
  "(checkSemantics (ReturnStatement (Some e)) symTable = Inr symTable)
     = (set (variablesOf e) \<subseteq> dom symTable)
   \<and> (\<forall>err. checkSemantics (ReturnStatement (Some e)) symTable = Inl err \<longrightarrow>
         (\<exists>v \<in> set (variablesOf e). symTable v = None
            \<and> err = RuntimeError (''Variable '' @ [CHR 0x27] @ v @ [CHR 0x27]
                                    @ '' is not declared'')))"
proof -
  have "(checkSemantics (ReturnStatement (Some e)) symTable = Inr symTable)
          = (checkExpression symTable e = Inr ())"
    by (auto split: sum.splits)
  moreover have "\<And>err. checkSemantics (ReturnStatement (Some e)) symTable = Inl err
                    \<Longrightarrow> checkExpression symTable e = Inl err"
    by (auto split: sum.splits)
  ultimately show ?thesis
    using checkExpression_accepts_iff [of symTable e] checkExpression_error [of symTable e]
    by blast
qed

text \<open>C10, witness: with \<open>x\<close> declared \<^verbatim>\<open>int\<close> and \<open>c\<close> declared \<^verbatim>\<open>char\<close>, \<^verbatim>\<open>x + c\<close> has no type,
  yet \<^verbatim>\<open>return x + c;\<close> passes the check and is lowered, while \<^verbatim>\<open>int y = x + c;\<close> is fatal.\<close>

theorem checkSemantics_ReturnStatement_witness:
  "set (variablesOf (BinaryExpression (VariableExpression ''x'') Add (VariableExpression ''c'')))
     \<subseteq> dom [''x'' \<mapsto> ''int'', ''c'' \<mapsto> ''char'']
   \<and> getTypeOf [''x'' \<mapsto> ''int'', ''c'' \<mapsto> ''char'']
         (BinaryExpression (VariableExpression ''x'') Add (VariableExpression ''c''))
       = Inl (RuntimeError ''Type mismatch in binary expression: int + char'')
   \<and> checkSemantics
         (ReturnStatement (Some (BinaryExpression (VariableExpression ''x'') Add
                                   (VariableExpression ''c''))))
         [''x'' \<mapsto> ''int'', ''c'' \<mapsto> ''char'']
       = Inr [''x'' \<mapsto> ''int'', ''c'' \<mapsto> ''char'']
   \<and> compile (''{ int x = 1; char c = '' @ [CHR 0x27, CHR ''a'', CHR 0x27] @ ''; return x + c; }'')
       = Inr [TACInstruction ''MOV'' ''1'' [] ''x'',
              TACInstruction ''MOV'' [CHR 0x27, CHR ''a'', CHR 0x27] [] ''c'',
              TACInstruction ''+'' ''x'' ''c'' ''t0'',
              TACInstruction ''RET'' ''t0'' [] []]
   \<and> compile (''{ int x = 1; char c = '' @ [CHR 0x27, CHR ''a'', CHR 0x27] @ ''; int y = x + c; }'')
       = Inl (RuntimeError ''Type mismatch in binary expression: int + char'')"
proof -
  let ?e = "BinaryExpression (VariableExpression ''x'') Add (VariableExpression ''c'')"
  let ?st = "[''x'' \<mapsto> ''int'', ''c'' \<mapsto> ''char'']"
  have v: "set (variablesOf ?e) \<subseteq> dom ?st" by simp
  have t: "getTypeOf ?st ?e = Inl (RuntimeError ''Type mismatch in binary expression: int + char'')"
    by (simp add: lookupVariable_def)
  have r: "checkSemantics (ReturnStatement (Some ?e)) ?st = Inr ?st"
    using checkSemantics_ReturnStatement [of ?e ?st] v by blast
  have c1: "compile (''{ int x = 1; char c = '' @ [CHR 0x27, CHR ''a'', CHR 0x27] @ ''; return x + c; }'')
       = Inr [TACInstruction ''MOV'' ''1'' [] ''x'',
              TACInstruction ''MOV'' [CHR 0x27, CHR ''a'', CHR 0x27] [] ''c'',
              TACInstruction ''+'' ''x'' ''c'' ''t0'',
              TACInstruction ''RET'' ''t0'' [] []]"
    by code_simp
  have c2: "compile (''{ int x = 1; char c = '' @ [CHR 0x27, CHR ''a'', CHR 0x27] @ ''; int y = x + c; }'')
       = Inl (RuntimeError ''Type mismatch in binary expression: int + char'')"
    by code_simp
  from v t r c1 c2 show ?thesis by blast
qed

section \<open>Claims about the parser\<close>

subsection \<open>Lexemes\<close>

text \<open>What \<^verbatim>\<open>nextToken\<close> stores as the lexeme of a token: the lexeme of a number, a string
  literal, a character literal or an operator starts with the character the scanner stood on.\<close>

lemma number_loop_prefix: "\<exists>rest. fst (snd (number_loop L v b)) = v @ rest"
proof (induction L v b rule: number_loop.induct)
  case (1 L v b)
  show ?case
  proof (cases "(isdigit (currentChar L) \<or> currentChar L = CHR ''.'')
                 \<and> \<not> (currentChar L = CHR ''.'' \<and> b)")
    case True
    with 1 obtain rest where
      "fst (snd (number_loop (advance L) (v @ [currentChar L]) (b \<or> currentChar L = CHR ''.'')))
         = (v @ [currentChar L]) @ rest"
      by blast
    with True show ?thesis
      by (auto simp: number_loop.simps [of L v b])
  next
    case False
    then show ?thesis
      by (auto simp: number_loop.simps [of L v b])
  qed
qed

lemma number_lexeme:
  assumes "isdigit (currentChar L)" and "number L = (tok, L')"
  shows "\<exists>rest. getValue tok = currentChar L # rest"
proof -
  obtain rest where
    "fst (snd (number_loop (advance L) [currentChar L] (False \<or> currentChar L = CHR ''.'')))
       = [currentChar L] @ rest"
    using number_loop_prefix by blast
  moreover have "\<not> (currentChar L = CHR ''.'' \<and> False)" by simp
  ultimately have "fst (snd (number_loop L [] False)) = currentChar L # rest"
    using assms(1) by (simp add: number_loop.simps [of L "[]" False])
  moreover have "getValue tok = fst (snd (number_loop L [] False))"
    using assms(2) by (auto simp: number_def Let_def split: prod.splits if_splits)
  ultimately show ?thesis by simp
qed

lemma string_loop_prefix: "\<exists>rest. snd (string_loop L v) = v @ rest"
proof (induction L v rule: string_loop.induct)
  case (1 L v)
  show ?case
  proof (cases "currentChar L \<noteq> CHR 0x22 \<and> currentChar L \<noteq> CHR 0x00")
    case True
    note c = this
    show ?thesis
    proof (cases "currentChar L = CHR 0x5C \<and> peekChar L = CHR 0x22")
      case True
      from 1(1) [OF c True refl refl] obtain rest where
        "snd (string_loop (advance (advance L)) ((v @ [currentChar L]) @ [currentChar (advance L)]))
           = ((v @ [currentChar L]) @ [currentChar (advance L)]) @ rest"
        by blast
      with c True show ?thesis
        by (simp add: string_loop.simps [of L v] Let_def)
    next
      case False
      from 1(2) [OF c False] obtain rest where
        "snd (string_loop (advance L) (v @ [currentChar L])) = (v @ [currentChar L]) @ rest"
        by blast
      with c False show ?thesis
        by (auto simp: string_loop.simps [of L v])
    qed
  next
    case False
    then show ?thesis by (auto simp: string_loop.simps [of L v])
  qed
qed

lemma stringLiteral_lexeme:
  assumes "stringLiteral L = (tok, L')"
  shows "\<exists>rest. getValue tok = currentChar L # rest"
proof -
  obtain rest where "snd (string_loop (advance L) [currentChar L]) = [currentChar L] @ rest"
    using string_loop_prefix by blast
  then show ?thesis
    using assms by (auto simp: stringLiteral_def Let_def split: prod.splits)
qed

lemma characterLiteral_lexeme:
  assumes "characterLiteral L = Inr (tok, L')"
  shows "\<exists>rest. getValue tok = currentChar L # rest"
  using assms by (auto simp: characterLiteral_def Let_def split: prod.splits if_splits)

lemma identifierOrKeyword_kind:
  assumes "identifierOrKeyword L = (tok, L')"
  shows "getType tok \<in> {Identifier, Keyword, BooleanLiteral, NullLiteral}"
proof -
  have "\<And>v ty. map_of keywordTable v = Some ty \<Longrightarrow> ty \<in> {Keyword, BooleanLiteral, NullLiteral}"
    by (auto simp: keywordTable_def split: if_splits)
  then show ?thesis
    using assms
    by (fastforce simp: identifierOrKeyword_def Let_def split: prod.splits option.splits)
qed

lemma operator_loop_prefix: "\<exists>rest. snd (operator_loop L v) = v @ rest"
proof (induction L v rule: operator_loop.induct)
  case (1 L v)
  show ?case
  proof (cases "isOperator (currentChar L)")
    case True
    note c = this
    show ?thesis
    proof (cases "map_of multiCharOperators (v @ [currentChar L])")
      case None
      from 1(1) [OF c refl refl None] obtain rest where
        "snd (operator_loop (advance L) (v @ [currentChar L])) = (v @ [currentChar L]) @ rest"
        by blast
      with c None show ?thesis
        by (simp add: operator_loop.simps [of L v] Let_def)
    next
      case (Some ch)
      show ?thesis
      proof (cases "currentChar (advance L) = ch")
        case True
        with c Some show ?thesis
          by (simp add: operator_loop.simps [of L v] Let_def)
      next
        case False
        from 1(2) [OF c refl refl Some False] obtain rest where
          "snd (operator_loop (advance L) (v @ [currentChar L])) = (v @ [currentChar L]) @ rest"
          by blast
        with c Some False show ?thesis
          by (simp add: operator_loop.simps [of L v] Let_def)
      qed
    qed
  next
    case False
    then show ?thesis by (simp add: operator_loop.simps [of L v])
  qed
qed

lemma operatorToken_lexeme:
  assumes "isOperator (currentChar L)" and "operatorToken L = (tok, L')"
  shows "\<exists>rest. getValue tok = currentChar L # rest"
proof -
  have "\<exists>rest. snd (operator_loop L []) = currentChar L # rest"
  proof (cases "map_of multiCharOperators [currentChar L]")
    case None
    obtain rest where
      "snd (operator_loop (advance L) [currentChar L]) = [currentChar L] @ rest"
      using operator_loop_prefix by blast
    with assms(1) None show ?thesis
      by (simp add: operator_loop.simps [of L "[]"] Let_def)
  next
    case (Some ch)
    obtain rest where
      "snd (operator_loop (advance L) [currentChar L]) = [currentChar L] @ rest"
      using operator_loop_prefix by blast
    with assms(1) Some show ?thesis
      by (simp add: operator_loop.simps [of L "[]"] Let_def)
  qed
  moreover have "getValue tok = snd (operator_loop L [])"
    using assms(2) by (auto simp: operatorToken_def Let_def split: prod.splits)
  ultimately show ?thesis by simp
qed

lemma tokenize_loop_invariant:
  assumes "\<And>L tok L'. nextToken L = Inr (tok, L') \<Longrightarrow> Q tok"
  shows "tokenize_loop L acc = Inr ts \<Longrightarrow> \<forall>t \<in> set acc. Q t \<Longrightarrow> \<forall>t \<in> set ts. Q t"
proof (induction L acc rule: tokenize_loop.induct)
  case (1 L tokens)
  show ?case
  proof (cases "index L < length (source L)")
    case False
    with 1(2,3) show ?thesis by (simp add: tokenize_loop.simps [of L tokens])
  next
    case True
    with 1(2) obtain token L1 where n: "nextToken L = Inr (token, L1)"
      by (auto simp: tokenize_loop.simps [of L tokens] split: sum.splits)
    define tokens1 where "tokens1 = (if getType token \<noteq> Unknown then tokens @ [token] else tokens)"
    have q: "\<forall>t \<in> set tokens1. Q t"
      using 1(3) assms [OF n] by (simp add: tokens1_def)
    show ?thesis
    proof (cases "getType token = EndOfFile")
      case True
      with 1(2) \<open>index L < length (source L)\<close> n have "ts = tokens1"
        by (simp add: tokenize_loop.simps [of L tokens] tokens1_def Let_def)
      with q show ?thesis by simp
    next
      case False
      with 1(2) \<open>index L < length (source L)\<close> n have "tokenize_loop L1 tokens1 = Inr ts"
        by (simp add: tokenize_loop.simps [of L tokens] tokens1_def Let_def)
      from 1(1) [OF \<open>index L < length (source L)\<close> n refl tokens1_def False this q]
      show ?thesis .
    qed
  qed
qed

subsection \<open>The names of the primitive types are Keyword tokens\<close>

lemma primitive_name_first:
  "c # rest \<in> {''int'', ''float'', ''char'', ''std::string''} \<Longrightarrow>
     c \<in> {CHR ''i'', CHR ''f'', CHR ''c'', CHR ''s''}"
  by auto

lemma identifierOrKeyword_primitive:
  assumes "identifierOrKeyword L = (tok, L')"
    and "getValue tok \<in> {''int'', ''float'', ''char'', ''std::string''}"
  shows "getType tok = Keyword"
proof -
  obtain L1 val where l: "identifier_loop L [] = (L1, val)" by (cases "identifier_loop L []")
  with assms(1) have v: "getValue tok = val"
    by (auto simp: identifierOrKeyword_def Let_def split: option.splits)
  with assms(2) have "map_of keywordTable val = Some Keyword"
    by (auto simp: keywordTable_def)
  with assms(1) l show ?thesis
    by (auto simp: identifierOrKeyword_def Let_def)
qed

lemma nextToken_primitive_keyword:
  assumes "nextToken L = Inr (tok, L')"
    and "getValue tok \<in> {''int'', ''float'', ''char'', ''std::string''}"
  shows "getType tok = Keyword"
proof -
  define M where "M = skipComment (skipWhitespace L)"
  consider (num) "isdigit (currentChar M)"
    | (ident) "\<not> isdigit (currentChar M)" "isalpha (currentChar M) \<or> currentChar M = CHR ''_''"
    | (str) "\<not> isdigit (currentChar M)" "\<not> (isalpha (currentChar M) \<or> currentChar M = CHR ''_'')"
        "currentChar M = CHR 0x22"
    | (chr) "\<not> isdigit (currentChar M)" "\<not> (isalpha (currentChar M) \<or> currentChar M = CHR ''_'')"
        "currentChar M \<noteq> CHR 0x22" "currentChar M = CHR 0x27"
    | (oper) "\<not> isdigit (currentChar M)" "\<not> (isalpha (currentChar M) \<or> currentChar M = CHR ''_'')"
        "currentChar M \<noteq> CHR 0x22" "currentChar M \<noteq> CHR 0x27" "isOperator (currentChar M)"
    | (other) "\<not> isdigit (currentChar M)" "\<not> (isalpha (currentChar M) \<or> currentChar M = CHR ''_'')"
        "currentChar M \<noteq> CHR 0x22" "currentChar M \<noteq> CHR 0x27" "\<not> isOperator (currentChar M)"
    by blast
  then show ?thesis
  proof cases
    case num
    then have "number M = (tok, L')"
      using assms(1) by (simp add: nextToken_def M_def [symmetric])
    from number_lexeme [OF num this] obtain rest where "getValue tok = currentChar M # rest" ..
    with assms(2) have "currentChar M \<in> {CHR ''i'', CHR ''f'', CHR ''c'', CHR ''s''}"
      using primitive_name_first by metis
    with num show ?thesis by (auto simp: isdigit_def)
  next
    case ident
    then have "identifierOrKeyword M = (tok, L')"
      using assms(1) by (simp add: nextToken_def M_def [symmetric])
    then show ?thesis using assms(2) by (rule identifierOrKeyword_primitive)
  next
    case str
    then have "stringLiteral M = (tok, L')"
      using assms(1) by (simp add: nextToken_def M_def [symmetric])
    from stringLiteral_lexeme [OF this] obtain rest where "getValue tok = currentChar M # rest" ..
    with assms(2) have "currentChar M \<in> {CHR ''i'', CHR ''f'', CHR ''c'', CHR ''s''}"
      using primitive_name_first by metis
    with str(3) show ?thesis by simp
  next
    case chr
    then have "characterLiteral M = Inr (tok, L')"
      using assms(1) by (simp add: nextToken_def M_def [symmetric])
    from characterLiteral_lexeme [OF this] obtain rest where "getValue tok = currentChar M # rest" ..
    with assms(2) have "currentChar M \<in> {CHR ''i'', CHR ''f'', CHR ''c'', CHR ''s''}"
      using primitive_name_first by metis
    with chr(4) show ?thesis by simp
  next
    case oper
    then have "operatorToken M = (tok, L')"
      using assms(1) by (simp add: nextToken_def M_def [symmetric])
    from operatorToken_lexeme [OF oper(5) this] obtain rest where
      "getValue tok = currentChar M # rest" ..
    with assms(2) have "currentChar M \<in> {CHR ''i'', CHR ''f'', CHR ''c'', CHR ''s''}"
      using primitive_name_first by metis
    with oper(5) show ?thesis by (auto simp: isOperator_def)
  next
    case other
    then have "getValue tok = [] \<or> (\<exists>c. getValue tok = [c])"
      using assms(1)
      by (auto simp: nextToken_def M_def [symmetric] Let_def split: if_splits)
    with assms(2) show ?thesis by auto
  qed
qed

lemma tokenize_primitive_keyword:
  assumes "tokenize src = Inr tokens"
  shows "\<forall>t \<in> set tokens. getValue t \<in> {''int'', ''float'', ''char'', ''std::string''}
                            \<longrightarrow> getType t = Keyword"
proof -
  have step: "\<And>L tok L'. nextToken L = Inr (tok, L') \<Longrightarrow>
                 getValue tok \<in> {''int'', ''float'', ''char'', ''std::string''}
                 \<longrightarrow> getType tok = Keyword"
    using nextToken_primitive_keyword by blast
  have "\<forall>t \<in> set ([] :: Token list).
          getValue t \<in> {''int'', ''float'', ''char'', ''std::string''} \<longrightarrow> getType t = Keyword"
    by simp
  with tokenize_loop_invariant
         [of "\<lambda>t. getValue t \<in> {''int'', ''float'', ''char'', ''std::string''}
                   \<longrightarrow> getType t = Keyword"
             "setSource src" "[]" tokens, OF step]
    assms
  show ?thesis by (simp add: tokenize_def)
qed

subsection \<open>The loop over the parameters\<close>

lemma parameter_loop_tokens:
  "parameter_loop tokens i ps = Inr (ps', i') \<Longrightarrow> i \<le> j \<Longrightarrow> j < i' \<Longrightarrow>
     match tokens j Identifier
     \<or> (match tokens j Separator \<and> getValue (currentToken tokens j) = '','')"
proof (induction tokens i ps rule: parameter_loop.induct)
  case (1 tokens i parameters)
  from "1.prems"(1) "1.prems"(2) "1.prems"(3)
  have open_: "\<not> match tokens i Separator \<or> getValue (currentToken tokens i) \<noteq> '')''"
    by (auto simp: parameter_loop.simps [of tokens i parameters])
  with "1.prems"(1) have m0: "match tokens i Identifier"
    by (auto simp: parameter_loop.simps [of tokens i parameters] split: if_splits)
  then have a0: "advanceToken tokens i = Suc i" by (simp add: match_advance)
  from "1.prems"(1) open_ m0 have m1: "match tokens (Suc i) Identifier"
    by (auto simp: parameter_loop.simps [of tokens i parameters] Let_def a0 split: if_splits)
  then have a1: "advanceToken tokens (Suc i) = Suc (Suc i)" by (simp add: match_advance)
  show ?case
  proof (cases "match tokens (Suc (Suc i)) Separator
                  \<and> getValue (currentToken tokens (Suc (Suc i))) = '',''")
    case True
    then have a2: "advanceToken tokens (Suc (Suc i)) = Suc (Suc (Suc i))"
      by (auto simp: match_advance)
    from "1.prems"(1) open_ m0 m1 True
    have r: "parameter_loop tokens (Suc (Suc (Suc i)))
               (parameters @ [getValue (currentToken tokens i) @ '' ''
                                @ getValue (currentToken tokens (Suc i))]) = Inr (ps', i')"
      by (simp add: parameter_loop.simps [of tokens i parameters] Let_def a0 a1 a2)
    consider "j = i" | "j = Suc i" | "j = Suc (Suc i)" | "Suc (Suc (Suc i)) \<le> j"
      using "1.prems"(2) by linarith
    then show ?thesis
    proof cases
      case 4
      have m1': "\<not> \<not> match tokens (advanceToken tokens i) Identifier"
        using m1 by (simp add: a0)
      have c': "match tokens (advanceToken tokens (advanceToken tokens i)) Separator \<and>
                getValue (currentToken tokens (advanceToken tokens (advanceToken tokens i))) = '',''"
        using True by (simp add: a0 a1)
      show ?thesis
        using "1.IH" [OF open_ m0 refl refl m1' refl refl refl c'] r 4 "1.prems"(3)
        by (simp add: a0 a1 a2)
    qed (use m0 m1 True in auto)
  next
    case False
    with "1.prems"(1) open_ m0 m1 have "i' = Suc (Suc i)"
      by (auto simp: parameter_loop.simps [of tokens i parameters] Let_def a0 a1)
    with "1.prems"(2,3) have "j = i \<or> j = Suc i" by linarith
    with m0 m1 show ?thesis by auto
  qed
qed

lemma parameter_loop_errors:
  "parameter_loop tokens i ps = Inl e \<Longrightarrow>
     e = RuntimeError ''Expected parameter type in function declaration''
     \<or> e = RuntimeError ''Expected parameter name after type in function declaration''"
proof (induction tokens i ps rule: parameter_loop.induct)
  case (1 tokens i parameters)
  show ?case
    using "1.prems" "1.IH" [OF _ _ refl refl _ refl refl refl]
    by (auto simp: parameter_loop.simps [of tokens i parameters] Let_def split: if_splits)
qed

lemma parseFunctionDeclaration_rejects_keyword:
  assumes "i < k" and "match tokens k Keyword"
    and "\<forall>j. i < j \<and> j \<le> k \<longrightarrow>
           \<not> (match tokens j Separator \<and> getValue (currentToken tokens j) = '')'')"
  shows "parseFunctionDeclaration tokens i returnType name
           = Inl (RuntimeError ''Expected parameter type in function declaration'')
         \<or> parseFunctionDeclaration tokens i returnType name
           = Inl (RuntimeError ''Expected parameter name after type in function declaration'')
         \<or> parseFunctionDeclaration tokens i returnType name
           = Inl (RuntimeError (''Expected '' @ [CHR 0x27] @ '')'' @ [CHR 0x27]
                                 @ '' after function parameters''))"
proof -
  have lt: "k < length tokens" using assms(2) by (rule match_Keyword_in_range)
  then have a: "advanceToken tokens i = Suc i" using assms(1) by (simp add: advanceToken_def)
  show ?thesis
  proof (cases "parameter_loop tokens (Suc i) []")
    case (Inl e)
    then show ?thesis
      using parameter_loop_errors [OF Inl]
      by (auto simp: parseFunctionDeclaration.simps [of tokens i] Let_def a)
  next
    case (Inr p)
    obtain ps i2 where p: "p = (ps, i2)" by (cases p)
    show ?thesis
    proof (cases "match tokens i2 Separator \<and> getValue (currentToken tokens i2) = '')''")
      case False
      then show ?thesis
        using Inr p by (auto simp: parseFunctionDeclaration.simps [of tokens i] Let_def a)
    next
      case True
      have "Suc i \<le> i2" using Inr p by (auto dest: parameter_loop_progress)
      with True assms(3) have "k < i2"
        by (metis Suc_le_lessD not_le_imp_less)
      with parameter_loop_tokens [of tokens "Suc i" "[]" ps i2 k] Inr p assms(1)
      have "match tokens k Identifier \<or> match tokens k Separator" by auto
      with assms(2) show ?thesis by (auto simp: match_def)
    qed
  qed
qed

text \<open>A run of the loop that succeeds from token \<open>i\<close> has read \<open>n\<close> parameters: the type of
  the \<open>m\<close>-th one is the token at \<open>i + 3 * m\<close>, its name the token behind it, both of kind
  Identifier, and a comma stands between two parameters.\<close>

lemma parameter_loop_accepts:
  "parameter_loop tokens i ps = Inr (ps', i') \<Longrightarrow>
     \<exists>n. ps' = ps @ map (\<lambda>m. getValue (currentToken tokens (i + 3 * m)) @ '' ''
                                @ getValue (currentToken tokens (i + 3 * m + 1))) [0..<n]
        \<and> (\<forall>m<n. match tokens (i + 3 * m) Identifier \<and> match tokens (i + 3 * m + 1) Identifier)
        \<and> (\<forall>m. Suc m < n \<longrightarrow> match tokens (i + 3 * m + 2) Separator
                                \<and> getValue (currentToken tokens (i + 3 * m + 2)) = '','')
        \<and> (i' = i + 3 * n \<or> (0 < n \<and> i' = i + 3 * n - 1))"
proof (induction tokens i ps arbitrary: ps' i' rule: parameter_loop.induct)
  case (1 tokens i parameters)
  let ?P = "\<lambda>i m. getValue (currentToken tokens (i + 3 * m)) @ '' ''
                    @ getValue (currentToken tokens (i + 3 * m + 1))"
  let ?C = "\<lambda>j. match tokens j Separator \<and> getValue (currentToken tokens j) = '',''"
  show ?case
  proof (cases "\<not> match tokens i Separator \<or> getValue (currentToken tokens i) \<noteq> '')''")
    case False
    with "1.prems" have "ps' = parameters" "i' = i"
      by (auto simp: parameter_loop.simps [of tokens i parameters])
    then have "ps' = parameters @ map (?P i) [0..<0]
        \<and> (\<forall>m<0. match tokens (i + 3 * m) Identifier \<and> match tokens (i + 3 * m + 1) Identifier)
        \<and> (\<forall>m. Suc m < 0 \<longrightarrow> ?C (i + 3 * m + 2))
        \<and> (i' = i + 3 * 0 \<or> (0 < (0::nat) \<and> i' = i + 3 * 0 - 1))"
      by simp
    then show ?thesis by blast
  next
    case True
    note open_ = this
    with "1.prems" have m0: "match tokens i Identifier"
      by (auto simp: parameter_loop.simps [of tokens i parameters] split: if_splits)
    then have a0: "advanceToken tokens i = Suc i" by (simp add: match_advance)
    from "1.prems" open_ m0 have m1: "match tokens (Suc i) Identifier"
      by (auto simp: parameter_loop.simps [of tokens i parameters] Let_def a0 split: if_splits)
    then have a1: "advanceToken tokens (Suc i) = Suc (Suc i)" by (simp add: match_advance)
    have p0: "?P i 0
                = getValue (currentToken tokens i) @ '' '' @ getValue (currentToken tokens (Suc i))"
      by simp
    show ?thesis
    proof (cases "?C (Suc (Suc i))")
      case False
      with "1.prems" open_ m0 m1 have r: "ps' = parameters @ [?P i 0]" "i' = Suc (Suc i)"
        by (auto simp: parameter_loop.simps [of tokens i parameters] Let_def a0 a1)
      have "ps' = parameters @ map (?P i) [0..<1]
        \<and> (\<forall>m<1. match tokens (i + 3 * m) Identifier \<and> match tokens (i + 3 * m + 1) Identifier)
        \<and> (\<forall>m. Suc m < 1 \<longrightarrow> ?C (i + 3 * m + 2))
        \<and> (i' = i + 3 * 1 \<or> (0 < (1::nat) \<and> i' = i + 3 * 1 - 1))"
        using r m0 m1 by simp
      then show ?thesis by blast
    next
      case True
      then have a2: "advanceToken tokens (Suc (Suc i)) = Suc (Suc (Suc i))"
        by (auto simp: match_advance)
      from "1.prems" open_ m0 m1 True
      have r: "parameter_loop tokens (Suc (Suc (Suc i))) (parameters @ [?P i 0]) = Inr (ps', i')"
        by (simp add: parameter_loop.simps [of tokens i parameters] Let_def a0 a1 a2)
      have m1': "\<not> \<not> match tokens (advanceToken tokens i) Identifier"
        using m1 by (simp add: a0)
      have c': "match tokens (advanceToken tokens (advanceToken tokens i)) Separator \<and>
                getValue (currentToken tokens (advanceToken tokens (advanceToken tokens i))) = '',''"
        using True by (simp add: a0 a1)
      have r': "parameter_loop tokens
                  (advanceToken tokens (advanceToken tokens (advanceToken tokens i)))
                  (parameters @ [getValue (currentToken tokens i) @ '' ''
                     @ getValue (currentToken tokens (advanceToken tokens i))]) = Inr (ps', i')"
        using r by (simp add: a0 a1 a2)
      have s3: "advanceToken tokens (advanceToken tokens (advanceToken tokens i)) = i + 3"
        by (simp add: a0 a1 a2)
      from "1.IH" [OF open_ m0 refl refl m1' refl refl refl c' r']
      obtain n where ih:
        "ps' = (parameters @ [?P i 0]) @ map (?P (i + 3)) [0..<n]"
        "\<forall>m<n. match tokens (i + 3 + 3 * m) Identifier \<and> match tokens (i + 3 + 3 * m + 1) Identifier"
        "\<forall>m. Suc m < n \<longrightarrow> ?C (i + 3 + 3 * m + 2)"
        "i' = i + 3 + 3 * n \<or> (0 < n \<and> i' = i + 3 + 3 * n - 1)"
        unfolding s3 by (auto simp: a0)
      have shift: "\<And>m. i + 3 * Suc m = i + 3 + 3 * m" by arith
      have "\<And>m. ?P i (Suc m) = ?P (i + 3) m" by (simp only: shift)
      then have "map (?P i) [0..<Suc n] = ?P i 0 # map (?P (i + 3)) [0..<n]"
        by (simp add: upt_conv_Cons map_Suc_upt [symmetric] del: upt_Suc)
      with ih(1) have e1: "ps' = parameters @ map (?P i) [0..<Suc n]"
        by simp
      have e2: "\<forall>m<Suc n. match tokens (i + 3 * m) Identifier
                          \<and> match tokens (i + 3 * m + 1) Identifier"
      proof (intro allI impI)
        fix m assume "m < Suc n"
        show "match tokens (i + 3 * m) Identifier \<and> match tokens (i + 3 * m + 1) Identifier"
        proof (cases m)
          case 0
          with m0 m1 show ?thesis by simp
        next
          case (Suc k)
          with \<open>m < Suc n\<close> have "k < n" by simp
          with ih(2) have "match tokens (i + 3 + 3 * k) Identifier
                             \<and> match tokens (i + 3 + 3 * k + 1) Identifier" by blast
          moreover have "i + 3 * m = i + 3 + 3 * k" using Suc by arith
          ultimately show ?thesis by (simp only:)
        qed
      qed
      have e3: "\<forall>m. Suc m < Suc n \<longrightarrow> ?C (i + 3 * m + 2)"
      proof (intro allI impI)
        fix m assume "Suc m < Suc n"
        show "?C (i + 3 * m + 2)"
        proof (cases m)
          case 0
          with True show ?thesis by simp
        next
          case (Suc k)
          with \<open>Suc m < Suc n\<close> have "Suc k < n" by simp
          with ih(3) have "?C (i + 3 + 3 * k + 2)" by blast
          moreover have "i + 3 * m = i + 3 + 3 * k" using Suc by arith
          ultimately show ?thesis by (simp only:)
        qed
      qed
      have e4: "i' = i + 3 * Suc n \<or> (0 < Suc n \<and> i' = i + 3 * Suc n - 1)"
        using ih(4) by auto
      from e1 e2 e3 e4 show ?thesis by blast
    qed
  qed
qed

lemma parameter_loop_rejects_type:
  assumes "\<not> match tokens i Separator \<or> getValue (currentToken tokens i) \<noteq> '')''"
    and "\<not> match tokens i Identifier"
  shows "parameter_loop tokens i ps
           = Inl (RuntimeError ''Expected parameter type in function declaration'')"
  using assms by (simp add: parameter_loop.simps [of tokens i ps])

lemma parameter_loop_rejects_name:
  assumes "match tokens i Identifier" and "\<not> match tokens (Suc i) Identifier"
  shows "parameter_loop tokens i ps
           = Inl (RuntimeError ''Expected parameter name after type in function declaration'')"
proof -
  have "\<not> match tokens i Separator" using assms(1) by (simp add: match_def)
  moreover have "advanceToken tokens i = Suc i" using assms(1) by (simp add: match_advance)
  ultimately show ?thesis
    using assms by (simp add: parameter_loop.simps [of tokens i ps] Let_def)
qed

lemma tokenize_accepted_parameters:
  assumes "tokenize src = Inr tokens" and "parameter_loop tokens i ps = Inr (ps', i')"
  shows "\<exists>n. ps' = ps @ map (\<lambda>m. getValue (currentToken tokens (i + 3 * m)) @ '' ''
                                @ getValue (currentToken tokens (i + 3 * m + 1))) [0..<n]
           \<and> (\<forall>m<n. getValue (currentToken tokens (i + 3 * m))
                         \<notin> {''int'', ''float'', ''char'', ''std::string''}
                     \<and> getValue (currentToken tokens (i + 3 * m + 1))
                         \<notin> {''int'', ''float'', ''char'', ''std::string''})"
proof -
  have ident: "\<And>j. match tokens j Identifier \<Longrightarrow>
                 getValue (currentToken tokens j) \<notin> {''int'', ''float'', ''char'', ''std::string''}"
  proof
    fix j
    assume m: "match tokens j Identifier"
      and v: "getValue (currentToken tokens j) \<in> {''int'', ''float'', ''char'', ''std::string''}"
    from m have "j < length tokens" by (rule match_Identifier_in_range)
    then have "currentToken tokens j \<in> set tokens" by (simp add: currentToken_def)
    with tokenize_primitive_keyword [OF assms(1)] v
    have "getType (currentToken tokens j) = Keyword" by blast
    with m show False by (simp add: match_def)
  qed
  from parameter_loop_accepts [OF assms(2)] obtain n where
    "ps' = ps @ map (\<lambda>m. getValue (currentToken tokens (i + 3 * m)) @ '' ''
                          @ getValue (currentToken tokens (i + 3 * m + 1))) [0..<n]"
    "\<forall>m<n. match tokens (i + 3 * m) Identifier \<and> match tokens (i + 3 * m + 1) Identifier"
    by blast
  with ident show ?thesis by blast
qed

text \<open>C7: for every source, a token whose lexeme is \<^verbatim>\<open>int\<close>, \<^verbatim>\<open>float\<close>, \<^verbatim>\<open>char\<close> or
  \<^verbatim>\<open>std::string\<close> has the kind Keyword, and each of the four names is lexed to such a token. A
  function declaration whose parameter list, between the opening parenthesis at \<open>i\<close> and the
  first closing one, holds a Keyword token at \<open>k\<close> is rejected by \<^verbatim>\<open>parseFunctionDeclaration\<close>
  with one of its three errors about parameters. Where the loop over the parameters succeeds from
  token \<open>start\<close>, it has read \<open>n\<close> parameters: the \<open>m\<close>-th one is built from the type token at
  \<open>start + 3 * m\<close> and the name token behind it, both of kind Identifier, with a comma between
  two parameters, and no other token is consumed; on the tokens of a source, neither lexeme of
  an accepted parameter is the name of a primitive type. Where the loop does not stand on the
  closing parenthesis, a token that is not an Identifier in the place of the type, and a token
  that is not an Identifier in the place of the name, are each rejected with their error.\<close>

theorem primitive_parameter_type_rejected:
  "(tokenize ''int'' = Inr [Token Keyword ''int'' 1 1]
    \<and> tokenize ''float'' = Inr [Token Keyword ''float'' 1 1]
    \<and> tokenize ''char'' = Inr [Token Keyword ''char'' 1 1]
    \<and> tokenize ''std::string'' = Inr [Token Keyword ''std::string'' 1 1])
   \<and> (tokenize src = Inr lexed \<longrightarrow>
        (\<forall>t \<in> set lexed. getValue t \<in> {''int'', ''float'', ''char'', ''std::string''}
                           \<longrightarrow> getType t = Keyword))
   \<and> (i < k \<and> match tokens k Keyword
        \<and> (\<forall>j. i < j \<and> j \<le> k \<longrightarrow>
              \<not> (match tokens j Separator \<and> getValue (currentToken tokens j) = '')''))
       \<longrightarrow>
         parseFunctionDeclaration tokens i returnType name
           = Inl (RuntimeError ''Expected parameter type in function declaration'')
         \<or> parseFunctionDeclaration tokens i returnType name
           = Inl (RuntimeError ''Expected parameter name after type in function declaration'')
         \<or> parseFunctionDeclaration tokens i returnType name
           = Inl (RuntimeError (''Expected '' @ [CHR 0x27] @ '')'' @ [CHR 0x27]
                                 @ '' after function parameters'')))
   \<and> (parameter_loop ts start ps = Inr (qs, stop) \<longrightarrow>
        (\<exists>n. qs = ps @ map (\<lambda>m. getValue (currentToken ts (start + 3 * m)) @ '' ''
                                  @ getValue (currentToken ts (start + 3 * m + 1))) [0..<n]
           \<and> (\<forall>m<n. match ts (start + 3 * m) Identifier
                     \<and> match ts (start + 3 * m + 1) Identifier)
           \<and> (\<forall>m. Suc m < n \<longrightarrow> match ts (start + 3 * m + 2) Separator
                                   \<and> getValue (currentToken ts (start + 3 * m + 2)) = '','')
           \<and> (stop = start + 3 * n \<or> (0 < n \<and> stop = start + 3 * n - 1)))
        \<and> (\<forall>j. start \<le> j \<and> j < stop \<longrightarrow>
              match ts j Identifier
              \<or> (match ts j Separator \<and> getValue (currentToken ts j) = '','')))
   \<and> (tokenize program = Inr ts \<and> parameter_loop ts start ps = Inr (qs, stop) \<longrightarrow>
        (\<exists>n. qs = ps @ map (\<lambda>m. getValue (currentToken ts (start + 3 * m)) @ '' ''
                                  @ getValue (currentToken ts (start + 3 * m + 1))) [0..<n]
           \<and> (\<forall>m<n. getValue (currentToken ts (start + 3 * m))
                         \<notin> {''int'', ''float'', ''char'', ''std::string''}
                     \<and> getValue (currentToken ts (start + 3 * m + 1))
                         \<notin> {''int'', ''float'', ''char'', ''std::string''})))
   \<and> ((\<not> match us u Separator \<or> getValue (currentToken us u) \<noteq> '')'')
        \<and> \<not> match us u Identifier \<longrightarrow>
        parameter_loop us u rs
          = Inl (RuntimeError ''Expected parameter type in function declaration''))
   \<and> (match vs v Identifier \<and> \<not> match vs (Suc v) Identifier \<longrightarrow>
        parameter_loop vs v ws
          = Inl (RuntimeError ''Expected parameter name after type in function declaration''))"
proof -
  have l1: "tokenize ''int'' = Inr [Token Keyword ''int'' 1 1]" by code_simp
  have l2: "tokenize ''float'' = Inr [Token Keyword ''float'' 1 1]" by code_simp
  have l3: "tokenize ''char'' = Inr [Token Keyword ''char'' 1 1]" by code_simp
  have l4: "tokenize ''std::string'' = Inr [Token Keyword ''std::string'' 1 1]" by code_simp
  have lexer: "tokenize src = Inr lexed \<longrightarrow>
        (\<forall>t \<in> set lexed. getValue t \<in> {''int'', ''float'', ''char'', ''std::string''}
                           \<longrightarrow> getType t = Keyword)"
    using tokenize_primitive_keyword [of src lexed] by (intro impI)
  have rejected: "i < k \<and> match tokens k Keyword
        \<and> (\<forall>j. i < j \<and> j \<le> k \<longrightarrow>
              \<not> (match tokens j Separator \<and> getValue (currentToken tokens j) = '')''))
       \<longrightarrow>
         parseFunctionDeclaration tokens i returnType name
           = Inl (RuntimeError ''Expected parameter type in function declaration'')
         \<or> parseFunctionDeclaration tokens i returnType name
           = Inl (RuntimeError ''Expected parameter name after type in function declaration'')
         \<or> parseFunctionDeclaration tokens i returnType name
           = Inl (RuntimeError (''Expected '' @ [CHR 0x27] @ '')'' @ [CHR 0x27]
                                 @ '' after function parameters''))"
    using parseFunctionDeclaration_rejects_keyword [of i k tokens returnType name] by blast
  have accepted: "parameter_loop ts start ps = Inr (qs, stop) \<longrightarrow>
        (\<exists>n. qs = ps @ map (\<lambda>m. getValue (currentToken ts (start + 3 * m)) @ '' ''
                                  @ getValue (currentToken ts (start + 3 * m + 1))) [0..<n]
           \<and> (\<forall>m<n. match ts (start + 3 * m) Identifier
                     \<and> match ts (start + 3 * m + 1) Identifier)
           \<and> (\<forall>m. Suc m < n \<longrightarrow> match ts (start + 3 * m + 2) Separator
                                   \<and> getValue (currentToken ts (start + 3 * m + 2)) = '','')
           \<and> (stop = start + 3 * n \<or> (0 < n \<and> stop = start + 3 * n - 1)))
        \<and> (\<forall>j. start \<le> j \<and> j < stop \<longrightarrow>
              match ts j Identifier
              \<or> (match ts j Separator \<and> getValue (currentToken ts j) = '',''))"
  proof (intro impI conjI allI)
    assume r: "parameter_loop ts start ps = Inr (qs, stop)"
    from parameter_loop_accepts [OF r]
    show "\<exists>n. qs = ps @ map (\<lambda>m. getValue (currentToken ts (start + 3 * m)) @ '' ''
                                  @ getValue (currentToken ts (start + 3 * m + 1))) [0..<n]
           \<and> (\<forall>m<n. match ts (start + 3 * m) Identifier
                     \<and> match ts (start + 3 * m + 1) Identifier)
           \<and> (\<forall>m. Suc m < n \<longrightarrow> match ts (start + 3 * m + 2) Separator
                                   \<and> getValue (currentToken ts (start + 3 * m + 2)) = '','')
           \<and> (stop = start + 3 * n \<or> (0 < n \<and> stop = start + 3 * n - 1))" .
    fix j
    assume "start \<le> j \<and> j < stop"
    then show "match ts j Identifier
              \<or> (match ts j Separator \<and> getValue (currentToken ts j) = '','')"
      using parameter_loop_tokens [of ts start ps qs stop j] r by blast
  qed
  have lexed_accepted:
    "tokenize program = Inr ts \<and> parameter_loop ts start ps = Inr (qs, stop) \<longrightarrow>
        (\<exists>n. qs = ps @ map (\<lambda>m. getValue (currentToken ts (start + 3 * m)) @ '' ''
                                  @ getValue (currentToken ts (start + 3 * m + 1))) [0..<n]
           \<and> (\<forall>m<n. getValue (currentToken ts (start + 3 * m))
                         \<notin> {''int'', ''float'', ''char'', ''std::string''}
                     \<and> getValue (currentToken ts (start + 3 * m + 1))
                         \<notin> {''int'', ''float'', ''char'', ''std::string''}))"
  proof
    assume "tokenize program = Inr ts \<and> parameter_loop ts start ps = Inr (qs, stop)"
    then have "tokenize program = Inr ts" and "parameter_loop ts start ps = Inr (qs, stop)"
      by simp_all
    then show "\<exists>n. qs = ps @ map (\<lambda>m. getValue (currentToken ts (start + 3 * m)) @ '' ''
                                  @ getValue (currentToken ts (start + 3 * m + 1))) [0..<n]
           \<and> (\<forall>m<n. getValue (currentToken ts (start + 3 * m))
                         \<notin> {''int'', ''float'', ''char'', ''std::string''}
                     \<and> getValue (currentToken ts (start + 3 * m + 1))
                         \<notin> {''int'', ''float'', ''char'', ''std::string''})"
      by (rule tokenize_accepted_parameters)
  qed
  have no_type: "(\<not> match us u Separator \<or> getValue (currentToken us u) \<noteq> '')'')
        \<and> \<not> match us u Identifier \<longrightarrow>
        parameter_loop us u rs
          = Inl (RuntimeError ''Expected parameter type in function declaration'')"
    using parameter_loop_rejects_type [of us u rs] by blast
  have no_name: "match vs v Identifier \<and> \<not> match vs (Suc v) Identifier \<longrightarrow>
        parameter_loop vs v ws
          = Inl (RuntimeError ''Expected parameter name after type in function declaration'')"
    using parameter_loop_rejects_name [of vs v ws] by blast
  show ?thesis
    by (intro conjI l1 l2 l3 l4 lexer rejected accepted lexed_accepted no_type no_name)
qed

text \<open>C7, witness: in \<^verbatim>\<open>int f(int a) { }\<close> the token \<^verbatim>\<open>int\<close> at position 3 is a Keyword, it
  follows the parenthesis at position 2, and the declaration is rejected. In
  \<^verbatim>\<open>int f(T a, U b) { }\<close> the loop accepts two parameters from position 3: the tokens at 3, 4, 6
  and 7 are Identifiers, the one at 5 is the comma, and \<^verbatim>\<open>T\<close> is not the name of a primitive
  type. The lists \<^verbatim>\<open>, a)\<close> and \<^verbatim>\<open>T , )\<close> are rejected for their first and their second token.
  The source \<^verbatim>\<open>int f(int a, int b) { return a + b; }\<close> does not compile.\<close>

theorem primitive_parameter_type_rejected_witness:
  "tokenize ''int f(int a) { }''
     = Inr [Token Keyword ''int'' 1 1, Token Identifier ''f'' 1 5, Token Separator ''('' 1 6,
            Token Keyword ''int'' 1 7, Token Identifier ''a'' 1 11, Token Separator '')'' 1 12,
            Token Separator ''{'' 1 14, Token Separator ''}'' 1 16]
   \<and> (2::nat) < 3
   \<and> match [Token Keyword ''int'' 1 1, Token Identifier ''f'' 1 5, Token Separator ''('' 1 6,
             Token Keyword ''int'' 1 7, Token Identifier ''a'' 1 11, Token Separator '')'' 1 12,
             Token Separator ''{'' 1 14, Token Separator ''}'' 1 16] 3 Keyword
   \<and> parseFunctionDeclaration
         [Token Keyword ''int'' 1 1, Token Identifier ''f'' 1 5, Token Separator ''('' 1 6,
          Token Keyword ''int'' 1 7, Token Identifier ''a'' 1 11, Token Separator '')'' 1 12,
          Token Separator ''{'' 1 14, Token Separator ''}'' 1 16] 2 ''int'' ''f''
       = Inl (RuntimeError ''Expected parameter type in function declaration'')
   \<and> tokenize ''int f(T a, U b) { }''
       = Inr [Token Keyword ''int'' 1 1, Token Identifier ''f'' 1 5, Token Separator ''('' 1 6,
              Token Identifier ''T'' 1 7, Token Identifier ''a'' 1 9, Token Separator '','' 1 10,
              Token Identifier ''U'' 1 12, Token Identifier ''b'' 1 14,
              Token Separator '')'' 1 15, Token Separator ''{'' 1 17, Token Separator ''}'' 1 19]
   \<and> parameter_loop
         [Token Keyword ''int'' 1 1, Token Identifier ''f'' 1 5, Token Separator ''('' 1 6,
          Token Identifier ''T'' 1 7, Token Identifier ''a'' 1 9, Token Separator '','' 1 10,
          Token Identifier ''U'' 1 12, Token Identifier ''b'' 1 14,
          Token Separator '')'' 1 15, Token Separator ''{'' 1 17, Token Separator ''}'' 1 19] 3 []
       = Inr ([''T a'', ''U b''], 8)
   \<and> match [Token Keyword ''int'' 1 1, Token Identifier ''f'' 1 5, Token Separator ''('' 1 6,
             Token Identifier ''T'' 1 7, Token Identifier ''a'' 1 9, Token Separator '','' 1 10,
             Token Identifier ''U'' 1 12, Token Identifier ''b'' 1 14,
             Token Separator '')'' 1 15, Token Separator ''{'' 1 17, Token Separator ''}'' 1 19]
         3 Identifier
   \<and> match [Token Keyword ''int'' 1 1, Token Identifier ''f'' 1 5, Token Separator ''('' 1 6,
             Token Identifier ''T'' 1 7, Token Identifier ''a'' 1 9, Token Separator '','' 1 10,
             Token Identifier ''U'' 1 12, Token Identifier ''b'' 1 14,
             Token Separator '')'' 1 15, Token Separator ''{'' 1 17, Token Separator ''}'' 1 19]
         4 Identifier
   \<and> match [Token Keyword ''int'' 1 1, Token Identifier ''f'' 1 5, Token Separator ''('' 1 6,
             Token Identifier ''T'' 1 7, Token Identifier ''a'' 1 9, Token Separator '','' 1 10,
             Token Identifier ''U'' 1 12, Token Identifier ''b'' 1 14,
             Token Separator '')'' 1 15, Token Separator ''{'' 1 17, Token Separator ''}'' 1 19]
         5 Separator
   \<and> match [Token Keyword ''int'' 1 1, Token Identifier ''f'' 1 5, Token Separator ''('' 1 6,
             Token Identifier ''T'' 1 7, Token Identifier ''a'' 1 9, Token Separator '','' 1 10,
             Token Identifier ''U'' 1 12, Token Identifier ''b'' 1 14,
             Token Separator '')'' 1 15, Token Separator ''{'' 1 17, Token Separator ''}'' 1 19]
         6 Identifier
   \<and> match [Token Keyword ''int'' 1 1, Token Identifier ''f'' 1 5, Token Separator ''('' 1 6,
             Token Identifier ''T'' 1 7, Token Identifier ''a'' 1 9, Token Separator '','' 1 10,
             Token Identifier ''U'' 1 12, Token Identifier ''b'' 1 14,
             Token Separator '')'' 1 15, Token Separator ''{'' 1 17, Token Separator ''}'' 1 19]
         7 Identifier
   \<and> getValue (currentToken
         [Token Keyword ''int'' 1 1, Token Identifier ''f'' 1 5, Token Separator ''('' 1 6,
          Token Identifier ''T'' 1 7, Token Identifier ''a'' 1 9, Token Separator '','' 1 10,
          Token Identifier ''U'' 1 12, Token Identifier ''b'' 1 14,
          Token Separator '')'' 1 15, Token Separator ''{'' 1 17, Token Separator ''}'' 1 19] 3)
       \<notin> {''int'', ''float'', ''char'', ''std::string''}
   \<and> match [Token Separator '','' 1 1, Token Identifier ''a'' 1 3, Token Separator '')'' 1 4]
         0 Separator
   \<and> parameter_loop
         [Token Separator '','' 1 1, Token Identifier ''a'' 1 3, Token Separator '')'' 1 4] 0 []
       = Inl (RuntimeError ''Expected parameter type in function declaration'')
   \<and> match [Token Identifier ''T'' 1 1, Token Separator '','' 1 3, Token Separator '')'' 1 5]
         0 Identifier
   \<and> match [Token Identifier ''T'' 1 1, Token Separator '','' 1 3, Token Separator '')'' 1 5]
         1 Separator
   \<and> parameter_loop
         [Token Identifier ''T'' 1 1, Token Separator '','' 1 3, Token Separator '')'' 1 5] 0 []
       = Inl (RuntimeError ''Expected parameter name after type in function declaration'')
   \<and> compile ''int f(int a, int b) { return a + b; }''
       = Inl (RuntimeError ''Expected parameter type in function declaration'')"
proof -
  let ?ts = "[Token Keyword ''int'' 1 1, Token Identifier ''f'' 1 5, Token Separator ''('' 1 6,
             Token Keyword ''int'' 1 7, Token Identifier ''a'' 1 11, Token Separator '')'' 1 12,
             Token Separator ''{'' 1 14, Token Separator ''}'' 1 16]"
  let ?ps = "[Token Keyword ''int'' 1 1, Token Identifier ''f'' 1 5, Token Separator ''('' 1 6,
              Token Identifier ''T'' 1 7, Token Identifier ''a'' 1 9, Token Separator '','' 1 10,
              Token Identifier ''U'' 1 12, Token Identifier ''b'' 1 14,
              Token Separator '')'' 1 15, Token Separator ''{'' 1 17, Token Separator ''}'' 1 19]"
  let ?us = "[Token Separator '','' 1 1, Token Identifier ''a'' 1 3, Token Separator '')'' 1 4]"
  let ?vs = "[Token Identifier ''T'' 1 1, Token Separator '','' 1 3, Token Separator '')'' 1 5]"
  let ?prim = "{''int'', ''float'', ''char'', ''std::string''}"
  have tk: "tokenize ''int f(int a) { }'' = Inr ?ts" by code_simp
  have tp: "tokenize ''int f(T a, U b) { }'' = Inr ?ps" by code_simp
  have t: "(2::nat) < 3" by simp
  have v: "parseFunctionDeclaration ?ts 2 ''int'' ''f''
       = Inl (RuntimeError ''Expected parameter type in function declaration'')"
    by code_simp
  have p: "parameter_loop ?ps 3 [] = Inr ([''T a'', ''U b''], 8)"
    by code_simp
  have c: "compile ''int f(int a, int b) { return a + b; }''
       = Inl (RuntimeError ''Expected parameter type in function declaration'')"
    by code_simp
  note inst = primitive_parameter_type_rejected
    [where src = "''int f(int a) { }''" and lexed = ?ts
       and i = 2 and k = 3 and tokens = ?ts and returnType = "''int''" and name = "''f''"
       and program = "''int f(T a, U b) { }''" and ts = ?ps and start = 3 and ps = "[]"
       and qs = "[''T a'', ''U b'']" and stop = 8
       and us = ?us and u = 0 and rs = "[]" and vs = ?vs and v = 0 and ws = "[]"]
  note lexer = inst [THEN conjunct2, THEN conjunct1, THEN mp, OF tk]
  have mem: "Token Keyword ''int'' 1 7 \<in> set ?ts" by simp
  have val: "getValue (Token Keyword ''int'' 1 7) \<in> ?prim" by simp
  note kind = lexer [THEN bspec, OF mem, THEN mp, OF val]
  have "currentToken ?ts 3 = Token Keyword ''int'' 1 7" by (simp add: currentToken_def)
  with kind have k: "match ?ts 3 Keyword" by (simp only: match_def)
  have np: "\<forall>j. 2 < j \<and> j \<le> 3 \<longrightarrow>
       \<not> (match ?ts j Separator \<and> getValue (currentToken ?ts j) = '')'')"
  proof (intro allI impI)
    fix j :: nat
    assume "2 < j \<and> j \<le> 3"
    then have "j = 3" by arith
    then show "\<not> (match ?ts j Separator \<and> getValue (currentToken ?ts j) = '')'')"
      using k by (simp add: match_def)
  qed
  note rejected = inst [THEN conjunct2, THEN conjunct2, THEN conjunct1, THEN mp,
                        OF conjI [OF t conjI [OF k np]]]
  note accepted = inst [THEN conjunct2, THEN conjunct2, THEN conjunct2, THEN conjunct1,
                        THEN mp, OF p, THEN conjunct1]
  from accepted obtain n where
    n1: "[''T a'', ''U b''] = [] @ map (\<lambda>m. getValue (currentToken ?ps (3 + 3 * m)) @ '' ''
                                  @ getValue (currentToken ?ps (3 + 3 * m + 1))) [0..<n]"
    and n2: "\<forall>m<n. match ?ps (3 + 3 * m) Identifier \<and> match ?ps (3 + 3 * m + 1) Identifier"
    and n3: "\<forall>m. Suc m < n \<longrightarrow> match ?ps (3 + 3 * m + 2) Separator
                                   \<and> getValue (currentToken ?ps (3 + 3 * m + 2)) = '',''"
    by (elim exE conjE)
  from arg_cong [OF n1, of length] have n: "n = 2" by simp
  from n2 [rule_format, of 0] n have m3: "match ?ps 3 Identifier" and m4: "match ?ps 4 Identifier"
    by simp_all
  from n2 [rule_format, of 1] n have m6: "match ?ps 6 Identifier" and m7: "match ?ps 7 Identifier"
    by simp_all
  from n3 [rule_format, of 0] n have m5: "match ?ps 5 Separator"
    by simp
  note lexed_accepted = inst [THEN conjunct2, THEN conjunct2, THEN conjunct2, THEN conjunct2,
                              THEN conjunct1, THEN mp, OF conjI [OF tp p]]
  from lexed_accepted obtain n' where
    n1': "[''T a'', ''U b''] = [] @ map (\<lambda>m. getValue (currentToken ?ps (3 + 3 * m)) @ '' ''
                                  @ getValue (currentToken ?ps (3 + 3 * m + 1))) [0..<n']"
    and n2': "\<forall>m<n'. getValue (currentToken ?ps (3 + 3 * m)) \<notin> ?prim
                    \<and> getValue (currentToken ?ps (3 + 3 * m + 1)) \<notin> ?prim"
    by (elim exE conjE)
  from arg_cong [OF n1', of length] have n': "n' = 2" by simp
  from n2' [rule_format, of 0] n' have np3: "getValue (currentToken ?ps 3) \<notin> ?prim"
    by simp
  have u0: "match ?us 0 Separator" by (simp add: match_def currentToken_def)
  have h1: "\<not> match ?us 0 Separator \<or> getValue (currentToken ?us 0) \<noteq> '')''"
    by (simp add: currentToken_def)
  have h2: "\<not> match ?us 0 Identifier" by (simp add: match_def currentToken_def)
  note no_type = inst [THEN conjunct2, THEN conjunct2, THEN conjunct2, THEN conjunct2,
                       THEN conjunct2, THEN conjunct1, THEN mp, OF conjI [OF h1 h2]]
  have v0: "match ?vs 0 Identifier" by (simp add: match_def currentToken_def)
  have v1: "match ?vs 1 Separator" by (simp add: match_def currentToken_def)
  have g2: "\<not> match ?vs (Suc 0) Identifier" by (simp add: match_def currentToken_def)
  note no_name = inst [THEN conjunct2, THEN conjunct2, THEN conjunct2, THEN conjunct2,
                       THEN conjunct2, THEN conjunct2, THEN mp, OF conjI [OF v0 g2]]
  show ?thesis
    using rejected
    by (intro conjI tk t k v tp p m3 m4 m5 m6 m7 np3 u0 no_type v0 v1 no_name c)
qed

section \<open>Claims about the lowering\<close>

text \<open>\<open>emitted g g'\<close>: what \<open>g'\<close> holds behind the instructions of \<open>g\<close>.\<close>

definition emitted :: "IRGenerator \<Rightarrow> IRGenerator \<Rightarrow> TACInstruction list" where
  "emitted g g' = drop (length (code g)) (code g')"

text \<open>The name of the \<open>n\<close>-th temporary, the operator symbols of \<^verbatim>\<open>opToString\<close>, and what it
  means for a name \<open>s\<close> in an instruction list: \<open>assigned_once c s\<close> holds when exactly one
  instruction of \<open>c\<close> has \<open>s\<close> as its result, that instruction is a binary-operator instruction,
  and neither it nor any instruction before it has \<open>s\<close> as an argument.\<close>

definition tempName :: "nat \<Rightarrow> string" where
  "tempName n = ''t'' @ to_string n"

definition isBinaryOperatorSymbol :: "string \<Rightarrow> bool" where
  "isBinaryOperatorSymbol s =
     (s \<in> set [''+'', ''-'', ''*'', ''/'', ''%'', ''<'', ''>'', ''=='', ''!='', ''&&'', ''||''])"

definition mentions :: "TACInstruction \<Rightarrow> string \<Rightarrow> bool" where
  "mentions ins s = (result ins = s \<or> arg1 ins = s \<or> arg2 ins = s)"

definition assigned_once :: "TACInstruction list \<Rightarrow> string \<Rightarrow> bool" where
  "assigned_once c s =
     (\<exists>before ins after.
        c = before @ ins # after
        \<and> result ins = s \<and> isBinaryOperatorSymbol (op ins)
        \<and> (\<forall>x \<in> set before \<union> set after. result x \<noteq> s)
        \<and> (\<forall>x \<in> set (before @ [ins]). arg1 x \<noteq> s \<and> arg2 x \<noteq> s))"

definition temp_discipline :: "TACInstruction list \<Rightarrow> bool" where
  "temp_discipline c =
     (\<forall>n. (\<exists>x \<in> set c. mentions x (tempName n)) \<longrightarrow> assigned_once c (tempName n))"

definition tempLike :: "string \<Rightarrow> bool" where
  "tempLike s = (case s of [] \<Rightarrow> False | c # ds \<Rightarrow> c = CHR ''t'' \<and> ds \<noteq> [] \<and> list_all isdigit ds)"

fun tempFreeExpression :: "Expression \<Rightarrow> bool" where
  "tempFreeExpression (BinaryExpression l opr r) = (tempFreeExpression l \<and> tempFreeExpression r)"
| "tempFreeExpression (LiteralExpression v) = (\<not> tempLike v)"
| "tempFreeExpression (VariableExpression name) = (\<not> tempLike name)"

fun tempFree :: "Statement \<Rightarrow> bool"
  and tempFreeList :: "Statement list \<Rightarrow> bool" where
  "tempFree (BlockStatement statements) = tempFreeList statements"
| "tempFree (VariableDeclaration ty name initializer) =
     (\<not> tempLike name \<and> (case initializer of None \<Rightarrow> True | Some e \<Rightarrow> tempFreeExpression e))"
| "tempFree (AssignmentStatement name val) = (\<not> tempLike name \<and> tempFreeExpression val)"
| "tempFree (ReturnStatement val) = (case val of None \<Rightarrow> True | Some e \<Rightarrow> tempFreeExpression e)"
| "tempFree (FunctionDeclaration returnType name parameters body) =
     (\<not> tempLike name \<and> tempFreeList body)"
| "tempFree (IfStatement condition thenBranch elseBranch) =
     (tempFreeExpression condition \<and> tempFree thenBranch
      \<and> (case elseBranch of None \<Rightarrow> True | Some els \<Rightarrow> tempFree els))"
| "tempFreeList [] = True"
| "tempFreeList (stmt # rest) = (tempFree stmt \<and> tempFreeList rest)"

definition temps_ok :: "IRGenerator \<Rightarrow> bool" where
  "temps_ok g =
     ((\<forall>n<tempVarCount g. assigned_once (code g) (tempName n))
      \<and> (\<forall>n. (\<exists>x \<in> set (code g). mentions x (tempName n)) \<longrightarrow> n < tempVarCount g))"

definition operand_ok :: "IRGenerator \<Rightarrow> string \<Rightarrow> bool" where
  "operand_ok g s = (\<forall>n. s = tempName n \<longrightarrow> n < tempVarCount g)"

definition digits_value :: "string \<Rightarrow> nat" where
  "digits_value s = foldl (\<lambda>a c. 10 * a + (of_char c - 48)) 0 s"

lemma code_emit [simp]: "code (emit ins g) = code g @ [ins]"
  by (simp add: emit_def)

lemma tempVarCount_emit [simp]: "tempVarCount (emit ins g) = tempVarCount g"
  by (simp add: emit_def)

lemma generateExpression_appends:
  "\<exists>ins. code (snd (generateExpression e g)) = code g @ ins"
proof (induction e arbitrary: g)
  case (BinaryExpression l opr r)
  obtain lv g1 where l: "generateExpression l g = (lv, g1)" by (cases "generateExpression l g")
  obtain rv g2 where r: "generateExpression r g1 = (rv, g2)" by (cases "generateExpression r g1")
  from BinaryExpression.IH(1) [of g] l obtain a where "code g1 = code g @ a" by auto
  moreover from BinaryExpression.IH(2) [of g1] r obtain b where "code g2 = code g1 @ b" by auto
  ultimately show ?case
    using l r by (simp add: getNewTempVar_def)
qed simp_all

lemma generateExpression_appendsD:
  "generateExpression e g = (r, g') \<Longrightarrow> \<exists>ins. code g' = code g @ ins"
  using generateExpression_appends [of e g] by simp

lemma generateStatement_appends:
  "\<exists>ins. code (generateStatement s g) = code g @ ins"
  "\<exists>ins. code (generateStatements ss g) = code g @ ins"
  "\<exists>ins. code (generateBody ss g) = code g @ ins"
proof (induction s g and ss g and ss g rule: generateStatement_generateStatements_generateBody.induct)
  case (1 ty name initializer g)
  show ?case
    by (cases initializer) (auto split: prod.splits dest!: generateExpression_appendsD)
next
  case (2 name val g)
  show ?case
    by (auto split: prod.splits dest!: generateExpression_appendsD)
next
  case (3 condition thenBranch elseBranch g)
  obtain c g1 where c: "generateExpression condition g = (c, g1)"
    by (cases "generateExpression condition g")
  define g2 where "g2 = emit (TACInstruction ''IF_FALSE'' c [] ''L1'') g1"
  define g3 where "g3 = generateStatement thenBranch g2"
  define g4 where "g4 = emit (TACInstruction ''GOTO'' [] [] ''L2'') g3"
  define g5 where "g5 = emit (TACInstruction ''LABEL'' [] [] ''L1'') g4"
  define g6 where "g6 = (case elseBranch of None \<Rightarrow> g5 | Some els \<Rightarrow> generateStatement els g5)"
  from generateExpression_appends [of condition g] c obtain a where a: "code g1 = code g @ a"
    by auto
  from 3(1) [OF c [symmetric] refl g2_def] obtain b where b: "code g3 = code g2 @ b"
    by (auto simp: g3_def)
  have "\<exists>d. code g6 = code g5 @ d"
  proof (cases elseBranch)
    case None
    then show ?thesis by (simp add: g6_def)
  next
    case (Some els)
    with 3(2) [OF c [symmetric] refl g2_def g3_def g4_def g5_def Some] show ?thesis
      by (simp add: g6_def)
  qed
  then obtain d where d: "code g6 = code g5 @ d" by blast
  have "generateStatement (IfStatement condition thenBranch elseBranch) g
          = emit (TACInstruction ''LABEL'' [] [] ''L2'') g6"
    using c unfolding g2_def g3_def g4_def g5_def g6_def by (simp add: Let_def)
  then show ?case
    using a b d by (simp add: g2_def g4_def g5_def)
next
  case (5 val g)
  show ?case
    by (cases val) (auto split: prod.splits dest!: generateExpression_appendsD)
next
  case (6 returnType name parameters body g)
  then show ?case by auto
next
  case (8 stmt rest g)
  then show ?case by (metis append.assoc generateStatements.simps(2))
next
  case (10 stmt rest g)
  then show ?case
    by (metis append.assoc generateBody.simps(2))
qed auto


lemma emitted_append: "code g' = code g @ ins \<Longrightarrow> emitted g g' = ins"
  by (simp add: emitted_def)

lemma code_emitted_generateExpression:
  "generateExpression e g = (r, g') \<Longrightarrow> code g' = code g @ emitted g g'"
  by (auto dest!: generateExpression_appendsD simp: emitted_def)

lemma code_emitted_generateStatement:
  "code (generateStatement s g) = code g @ emitted g (generateStatement s g)"
  using generateStatement_appends(1) [of s g] by (auto simp: emitted_def)

text \<open>C4: from any generator state, an if statement is lowered to the instructions of its
  condition, which leave the operand \<open>c\<close>, then \<^verbatim>\<open>IF_FALSE c "" L1\<close>, the instructions of the then
  branch, \<^verbatim>\<open>GOTO "" "" L2\<close>, \<^verbatim>\<open>LABEL "" "" L1\<close>, the instructions of the else branch (none when
  there is no else branch), and \<^verbatim>\<open>LABEL "" "" L2\<close>. The labels are the fixed strings \<^verbatim>\<open>L1\<close> and
  \<^verbatim>\<open>L2\<close> whatever the state and the statement are.\<close>

theorem generateStatement_IfStatement:
  "generateExpression condition g = (c, g1) \<and>
   g2 = emit (TACInstruction ''IF_FALSE'' c [] ''L1'') g1 \<and>
   g3 = generateStatement thenBranch g2 \<and>
   g5 = emit (TACInstruction ''LABEL'' [] [] ''L1'') (emit (TACInstruction ''GOTO'' [] [] ''L2'') g3) \<and>
   g6 = (case elseBranch of None \<Rightarrow> g5 | Some els \<Rightarrow> generateStatement els g5)
   \<longrightarrow>
   code (generateStatement (IfStatement condition thenBranch elseBranch) g)
     = code g @ emitted g g1
       @ [TACInstruction ''IF_FALSE'' c [] ''L1'']
       @ emitted g2 g3
       @ [TACInstruction ''GOTO'' [] [] ''L2'', TACInstruction ''LABEL'' [] [] ''L1'']
       @ emitted g5 g6
       @ [TACInstruction ''LABEL'' [] [] ''L2'']
   \<and> code g1 = code g @ emitted g g1
   \<and> code g3 = code g2 @ emitted g2 g3
   \<and> code g6 = code g5 @ emitted g5 g6
   \<and> (elseBranch = None \<longrightarrow> emitted g5 g6 = [])"
proof (intro impI, elim conjE)
  assume c: "generateExpression condition g = (c, g1)"
    and g2: "g2 = emit (TACInstruction ''IF_FALSE'' c [] ''L1'') g1"
    and g3: "g3 = generateStatement thenBranch g2"
    and g5: "g5 = emit (TACInstruction ''LABEL'' [] [] ''L1'')
                    (emit (TACInstruction ''GOTO'' [] [] ''L2'') g3)"
    and g6: "g6 = (case elseBranch of None \<Rightarrow> g5 | Some els \<Rightarrow> generateStatement els g5)"
  have a: "code g1 = code g @ emitted g g1"
    using c by (rule code_emitted_generateExpression)
  have b: "code g3 = code g2 @ emitted g2 g3"
    unfolding g3 by (rule code_emitted_generateStatement)
  have d: "code g6 = code g5 @ emitted g5 g6"
  proof (cases elseBranch)
    case None
    then show ?thesis by (simp add: g6 emitted_def)
  next
    case (Some els)
    then show ?thesis
      using code_emitted_generateStatement [of els g5] by (simp add: g6)
  qed
  have n: "elseBranch = None \<longrightarrow> emitted g5 g6 = []"
    unfolding g6 by (simp add: emitted_def)
  have "generateStatement (IfStatement condition thenBranch elseBranch) g
          = emit (TACInstruction ''LABEL'' [] [] ''L2'') g6"
    using c unfolding g2 g3 g5 g6 by (simp add: Let_def)
  then have "code (generateStatement (IfStatement condition thenBranch elseBranch) g)
               = code g6 @ [TACInstruction ''LABEL'' [] [] ''L2'']"
    by simp
  also have "code g6 = code g5 @ emitted g5 g6" by (rule d)
  also have "code g5 = code g3 @ [TACInstruction ''GOTO'' [] [] ''L2'',
                                  TACInstruction ''LABEL'' [] [] ''L1'']"
    unfolding g5 by simp
  also have "code g3 = code g2 @ emitted g2 g3" by (rule b)
  also have "code g2 = code g1 @ [TACInstruction ''IF_FALSE'' c [] ''L1'']"
    unfolding g2 by simp
  also have "code g1 = code g @ emitted g g1" by (rule a)
  finally show "code (generateStatement (IfStatement condition thenBranch elseBranch) g)
     = code g @ emitted g g1
       @ [TACInstruction ''IF_FALSE'' c [] ''L1'']
       @ emitted g2 g3
       @ [TACInstruction ''GOTO'' [] [] ''L2'', TACInstruction ''LABEL'' [] [] ''L1'']
       @ emitted g5 g6
       @ [TACInstruction ''LABEL'' [] [] ''L2'']
   \<and> code g1 = code g @ emitted g g1
   \<and> code g3 = code g2 @ emitted g2 g3
   \<and> code g6 = code g5 @ emitted g5 g6
   \<and> (elseBranch = None \<longrightarrow> emitted g5 g6 = [])"
    using a b d n by simp
qed

text \<open>C4, witness: \<^verbatim>\<open>if (x) x = 2; else x = 3;\<close> from the initial state.\<close>

theorem generateStatement_IfStatement_witness:
  "generateExpression (VariableExpression ''x'') newIRGenerator = (''x'', newIRGenerator)
   \<and> code (generateStatement
        (IfStatement (VariableExpression ''x'')
           (AssignmentStatement ''x'' (LiteralExpression ''2''))
           (Some (AssignmentStatement ''x'' (LiteralExpression ''3''))))
        newIRGenerator)
     = [TACInstruction ''IF_FALSE'' ''x'' [] ''L1'',
        TACInstruction ''MOV'' ''2'' [] ''x'',
        TACInstruction ''GOTO'' [] [] ''L2'',
        TACInstruction ''LABEL'' [] [] ''L1'',
        TACInstruction ''MOV'' ''3'' [] ''x'',
        TACInstruction ''LABEL'' [] [] ''L2'']"
proof -
  let ?g2 = "emit (TACInstruction ''IF_FALSE'' ''x'' [] ''L1'') newIRGenerator"
  let ?g3 = "generateStatement (AssignmentStatement ''x'' (LiteralExpression ''2'')) ?g2"
  let ?g5 = "emit (TACInstruction ''LABEL'' [] [] ''L1'')
               (emit (TACInstruction ''GOTO'' [] [] ''L2'') ?g3)"
  let ?g6 = "generateStatement (AssignmentStatement ''x'' (LiteralExpression ''3'')) ?g5"
  have c: "generateExpression (VariableExpression ''x'') newIRGenerator = (''x'', newIRGenerator)"
    by simp
  have e1: "emitted newIRGenerator newIRGenerator = []"
    by (simp add: emitted_def)
  have e2: "emitted ?g2 ?g3 = [TACInstruction ''MOV'' ''2'' [] ''x'']"
    by (simp add: emitted_def)
  have e3: "emitted ?g5 ?g6 = [TACInstruction ''MOV'' ''3'' [] ''x'']"
    by (simp add: emitted_def)
  have n: "code newIRGenerator = []" by (simp add: newIRGenerator_def)
  show ?thesis
    using c e1 e2 e3 n
      generateStatement_IfStatement [of "VariableExpression ''x''" newIRGenerator "''x''"
        newIRGenerator ?g2 ?g3 "AssignmentStatement ''x'' (LiteralExpression ''2'')" ?g5 ?g6
        "Some (AssignmentStatement ''x'' (LiteralExpression ''3''))"]
    by simp
qed

lemma generateBody_stops_at_return:
  "generateBody (ReturnStatement v # rest) g = generateStatement (ReturnStatement v) g"
  by (cases v) (auto simp: endsWithRet_def Let_def split: prod.splits)

text \<open>C5: the code at the input where it leaves the claim. The \<^verbatim>\<open>return\<close> at the end of the
  Return branch of \<^verbatim>\<open>generateStatement\<close> only leaves that call: the loop over a block's
  statements, at the root or nested, goes on and lowers the statements behind the return. The
  loop over a function body does stop.\<close>

theorem return_does_not_stop_block:
  "code (generateCode
      (BlockStatement [ReturnStatement (Some (LiteralExpression ''1'')),
                       AssignmentStatement ''x'' (LiteralExpression ''2'')]) newIRGenerator)
     = [TACInstruction ''RET'' ''1'' [] [], TACInstruction ''MOV'' ''2'' [] ''x'']
   \<and> code (generateStatement
      (BlockStatement [ReturnStatement (Some (LiteralExpression ''1'')),
                       AssignmentStatement ''x'' (LiteralExpression ''2'')]) newIRGenerator)
     = [TACInstruction ''RET'' ''1'' [] [], TACInstruction ''MOV'' ''2'' [] ''x'']
   \<and> compile ''{ int x = 0; return 1; x = 2; }''
     = Inr [TACInstruction ''MOV'' ''0'' [] ''x'', TACInstruction ''RET'' ''1'' [] [],
            TACInstruction ''MOV'' ''2'' [] ''x'']
   \<and> compile ''int main() { int x = 0; return 1; x = 2; }''
     = Inr [TACInstruction ''LABEL'' [] [] ''main'', TACInstruction ''MOV'' ''0'' [] ''x'',
            TACInstruction ''RET'' ''1'' [] []]"
  by code_simp

lemma of_char_digit_char: "d < 10 \<Longrightarrow> (of_char (digit_char d) :: nat) = 48 + d"
  by (simp add: digit_char_def)

lemma isdigit_digit_char: "d < 10 \<Longrightarrow> isdigit (digit_char d)"
  by (simp add: isdigit_def of_char_digit_char)

lemma digits_value_to_string: "digits_value (to_string n) = n"
proof (induction n rule: to_string.induct)
  case (1 n)
  show ?case
  proof (cases "n < 10")
    case True
    then show ?thesis
      by (simp add: to_string.simps [of n] digits_value_def of_char_digit_char)
  next
    case False
    with 1 have "digits_value (to_string (n div 10)) = n div 10" by simp
    with False show ?thesis
      by (simp add: to_string.simps [of n] digits_value_def of_char_digit_char)
  qed
qed

lemma to_string_inj: "to_string n = to_string m \<Longrightarrow> n = m"
  by (metis digits_value_to_string)

lemma tempName_inj [simp]: "(tempName n = tempName m) = (n = m)"
  by (auto simp: tempName_def dest: to_string_inj)

lemma to_string_digits: "to_string n \<noteq> [] \<and> list_all isdigit (to_string n)"
proof (induction n rule: to_string.induct)
  case (1 n)
  show ?case
  proof (cases "n < 10")
    case True
    then show ?thesis by (simp add: to_string.simps [of n] isdigit_digit_char)
  next
    case False
    with 1 show ?thesis by (simp add: to_string.simps [of n] isdigit_digit_char)
  qed
qed

lemma tempLike_tempName: "tempLike (tempName n)"
  using to_string_digits [of n] by (simp add: tempLike_def tempName_def)

lemma not_tempLike_neq: "\<not> tempLike s \<Longrightarrow> s \<noteq> tempName n"
  using tempLike_tempName by auto

lemma isBinaryOperatorSymbol_opToString: "isBinaryOperatorSymbol (opToString opr)"
  by (cases opr) (simp_all add: isBinaryOperatorSymbol_def)


lemma assigned_once_snoc:
  assumes "assigned_once c s" and "result x \<noteq> s"
  shows "assigned_once (c @ [x]) s"
proof -
  from assms(1) obtain before ins after where c: "c = before @ ins # after"
    and r: "result ins = s" "isBinaryOperatorSymbol (op ins)"
    and u: "\<forall>y \<in> set before \<union> set after. result y \<noteq> s"
    and a: "\<forall>y \<in> set (before @ [ins]). arg1 y \<noteq> s \<and> arg2 y \<noteq> s"
    unfolding assigned_once_def by blast
  have "c @ [x] = before @ ins # (after @ [x])" by (simp add: c)
  moreover have "\<forall>y \<in> set before \<union> set (after @ [x]). result y \<noteq> s"
    using u assms(2) by simp
  ultimately show ?thesis
    unfolding assigned_once_def using r a by blast
qed

lemma assigned_once_new:
  assumes "\<forall>y \<in> set c. \<not> mentions y s"
    and "result ins = s" and "isBinaryOperatorSymbol (op ins)"
    and "arg1 ins \<noteq> s" and "arg2 ins \<noteq> s"
  shows "assigned_once (c @ [ins]) s"
proof -
  have "c @ [ins] = c @ ins # []" by simp
  moreover have "\<forall>y \<in> set c \<union> set []. result y \<noteq> s"
    using assms(1) by (simp add: mentions_def)
  moreover have "\<forall>y \<in> set (c @ [ins]). arg1 y \<noteq> s \<and> arg2 y \<noteq> s"
    using assms(1,4,5) by (simp add: mentions_def)
  ultimately show ?thesis
    unfolding assigned_once_def using assms(2,3) by blast
qed

lemma temps_ok_emit:
  assumes "temps_ok g" and "\<not> tempLike (result ins)"
    and "operand_ok g (arg1 ins)" and "operand_ok g (arg2 ins)"
  shows "temps_ok (emit ins g)"
proof -
  have r: "\<And>n. result ins \<noteq> tempName n"
    using assms(2) by (rule not_tempLike_neq)
  have "\<forall>n<tempVarCount g. assigned_once (code g @ [ins]) (tempName n)"
  proof (intro allI impI)
    fix n assume "n < tempVarCount g"
    with assms(1) have "assigned_once (code g) (tempName n)" by (simp add: temps_ok_def)
    then show "assigned_once (code g @ [ins]) (tempName n)"
      using r by (rule assigned_once_snoc)
  qed
  moreover have "\<forall>n. (\<exists>x \<in> set (code g @ [ins]). mentions x (tempName n)) \<longrightarrow> n < tempVarCount g"
  proof (intro allI impI)
    fix n assume "\<exists>x \<in> set (code g @ [ins]). mentions x (tempName n)"
    then consider "\<exists>x \<in> set (code g). mentions x (tempName n)" | "mentions ins (tempName n)"
      by auto
    then show "n < tempVarCount g"
    proof cases
      case 1
      with assms(1) show ?thesis by (simp add: temps_ok_def)
    next
      case 2
      with r [of n] have "arg1 ins = tempName n \<or> arg2 ins = tempName n"
        by (simp add: mentions_def)
      with assms(3,4) show ?thesis by (auto simp: operand_ok_def)
    qed
  qed
  ultimately show ?thesis
    by (simp add: temps_ok_def)
qed

lemma temps_ok_emit_temp:
  assumes "temps_ok g" and "isBinaryOperatorSymbol (op ins)"
    and "result ins = tempName (tempVarCount g)"
    and "operand_ok g (arg1 ins)" and "operand_ok g (arg2 ins)"
  shows "temps_ok (emit ins (g\<lparr>tempVarCount := Suc (tempVarCount g)\<rparr>))"
proof -
  let ?c = "code g @ [ins]"
  have fresh: "\<forall>y \<in> set (code g). \<not> mentions y (tempName (tempVarCount g))"
  proof
    fix y assume "y \<in> set (code g)"
    show "\<not> mentions y (tempName (tempVarCount g))"
    proof
      assume "mentions y (tempName (tempVarCount g))"
      with \<open>y \<in> set (code g)\<close> assms(1) have "tempVarCount g < tempVarCount g"
        unfolding temps_ok_def by blast
      then show False by simp
    qed
  qed
  have a1: "arg1 ins \<noteq> tempName (tempVarCount g)" and a2: "arg2 ins \<noteq> tempName (tempVarCount g)"
    using assms(4,5) by (auto simp: operand_ok_def)
  have new: "assigned_once ?c (tempName (tempVarCount g))"
    using fresh assms(3,2) a1 a2 by (rule assigned_once_new)
  have "\<forall>n<Suc (tempVarCount g). assigned_once ?c (tempName n)"
  proof (intro allI impI)
    fix n assume "n < Suc (tempVarCount g)"
    then consider "n < tempVarCount g" | "n = tempVarCount g" by linarith
    then show "assigned_once ?c (tempName n)"
    proof cases
      case 1
      with assms(1) have "assigned_once (code g) (tempName n)" by (simp add: temps_ok_def)
      moreover from 1 assms(3) have "result ins \<noteq> tempName n" by simp
      ultimately show ?thesis by (rule assigned_once_snoc)
    next
      case 2
      with new show ?thesis by simp
    qed
  qed
  moreover have "\<forall>n. (\<exists>x \<in> set ?c. mentions x (tempName n)) \<longrightarrow> n < Suc (tempVarCount g)"
  proof (intro allI impI)
    fix n assume "\<exists>x \<in> set ?c. mentions x (tempName n)"
    then consider "\<exists>x \<in> set (code g). mentions x (tempName n)" | "mentions ins (tempName n)"
      by auto
    then show "n < Suc (tempVarCount g)"
    proof cases
      case 1
      with assms(1) have "n < tempVarCount g" by (simp add: temps_ok_def)
      then show ?thesis by simp
    next
      case 2
      then consider "result ins = tempName n" | "arg1 ins = tempName n" | "arg2 ins = tempName n"
        by (auto simp: mentions_def)
      then show ?thesis
      proof cases
        case 1
        with assms(3) show ?thesis by simp
      next
        case 2
        with assms(4) show ?thesis by (simp add: operand_ok_def)
      next
        case 3
        with assms(5) show ?thesis by (simp add: operand_ok_def)
      qed
    qed
  qed
  ultimately show ?thesis
    by (simp add: temps_ok_def emit_def)
qed

lemma operand_ok_mono: "operand_ok g s \<Longrightarrow> tempVarCount g \<le> tempVarCount g' \<Longrightarrow> operand_ok g' s"
  by (auto simp: operand_ok_def)

lemma operand_ok_not_tempLike: "\<not> tempLike s \<Longrightarrow> operand_ok g s"
  by (auto simp: operand_ok_def dest: not_tempLike_neq)

lemma not_tempLike_Nil [simp]: "\<not> tempLike []"
  by (simp add: tempLike_def)

lemma not_tempLike_labels [simp]: "\<not> tempLike ''L1''" "\<not> tempLike ''L2''"
  by (simp_all add: tempLike_def)

lemma generateExpression_temps_ok:
  "tempFreeExpression e \<Longrightarrow> temps_ok g \<Longrightarrow> generateExpression e g = (r, g') \<Longrightarrow>
     temps_ok g' \<and> tempVarCount g \<le> tempVarCount g' \<and> operand_ok g' r"
proof (induction e arbitrary: g r g')
  case (BinaryExpression l opr rr)
  obtain lv g1 where l: "generateExpression l g = (lv, g1)" by (cases "generateExpression l g")
  obtain rv g2 where r: "generateExpression rr g1 = (rv, g2)" by (cases "generateExpression rr g1")
  from BinaryExpression.prems(1) have fl: "tempFreeExpression l" and fr: "tempFreeExpression rr"
    by simp_all
  from BinaryExpression.IH(1) [OF fl BinaryExpression.prems(2) l]
  have 1: "temps_ok g1" "tempVarCount g \<le> tempVarCount g1" "operand_ok g1 lv" by simp_all
  from BinaryExpression.IH(2) [OF fr 1(1) r]
  have 2: "temps_ok g2" "tempVarCount g1 \<le> tempVarCount g2" "operand_ok g2 rv" by simp_all
  have lv2: "operand_ok g2 lv" using 1(3) 2(2) by (rule operand_ok_mono)
  let ?ins = "TACInstruction (opToString opr) lv rv (tempName (tempVarCount g2))"
  have "generateExpression (BinaryExpression l opr rr) g
          = (tempName (tempVarCount g2), emit ?ins (g2\<lparr>tempVarCount := Suc (tempVarCount g2)\<rparr>))"
    using l r by (simp add: getNewTempVar_def tempName_def)
  with BinaryExpression.prems(3) have res: "r = tempName (tempVarCount g2)"
    and g': "g' = emit ?ins (g2\<lparr>tempVarCount := Suc (tempVarCount g2)\<rparr>)"
    by simp_all
  have "temps_ok (emit ?ins (g2\<lparr>tempVarCount := Suc (tempVarCount g2)\<rparr>))"
  proof (rule temps_ok_emit_temp [OF 2(1)])
    show "isBinaryOperatorSymbol (op ?ins)" by (simp add: isBinaryOperatorSymbol_opToString)
    show "result ?ins = tempName (tempVarCount g2)" by simp
    show "operand_ok g2 (arg1 ?ins)" using lv2 by simp
    show "operand_ok g2 (arg2 ?ins)" using 2(3) by simp
  qed
  then have t: "temps_ok g'" by (simp only: g')
  have "tempVarCount g' = Suc (tempVarCount g2)"
    by (simp only: g' tempVarCount_emit) simp
  then have m: "tempVarCount g \<le> tempVarCount g'" and o: "operand_ok g' r"
    using 1(2) 2(2) by (simp_all add: operand_ok_def res)
  from t m o show ?case by blast
next
  case (LiteralExpression v)
  from LiteralExpression(3) have "r = v" "g' = g" by simp_all
  moreover from LiteralExpression(1) have "operand_ok g v"
    by (simp add: operand_ok_not_tempLike)
  ultimately show ?case using LiteralExpression(2) by simp
next
  case (VariableExpression name)
  from VariableExpression(3) have "r = name" "g' = g" by simp_all
  moreover from VariableExpression(1) have "operand_ok g name"
    by (simp add: operand_ok_not_tempLike)
  ultimately show ?case using VariableExpression(2) by simp
qed


lemma generateStatement_temps_ok:
  "tempFree s \<Longrightarrow> temps_ok g \<Longrightarrow> temps_ok (generateStatement s g)"
  "tempFreeList ss \<Longrightarrow> temps_ok g \<Longrightarrow> temps_ok (generateStatements ss g)"
  "tempFreeList ss \<Longrightarrow> temps_ok g \<Longrightarrow> temps_ok (generateBody ss g)"
proof (induction s g and ss g and ss g rule: generateStatement_generateStatements_generateBody.induct)
  case (1 ty name initializer g)
  show ?case
  proof (cases initializer)
    case None
    with 1 show ?thesis by simp
  next
    case (Some ini)
    obtain r g1 where e: "generateExpression ini g = (r, g1)" by (cases "generateExpression ini g")
    from 1(1) Some have "tempFreeExpression ini" and n: "\<not> tempLike name" by simp_all
    from generateExpression_temps_ok [OF this(1) 1(2) e]
    have "temps_ok g1" "operand_ok g1 r" by simp_all
    then have "temps_ok (emit (TACInstruction ''MOV'' r [] name) g1)"
      using n by (intro temps_ok_emit) (simp_all add: operand_ok_not_tempLike)
    with Some e show ?thesis by simp
  qed
next
  case (2 name val g)
  obtain r g1 where e: "generateExpression val g = (r, g1)" by (cases "generateExpression val g")
  from 2(1) have "tempFreeExpression val" and n: "\<not> tempLike name" by simp_all
  from generateExpression_temps_ok [OF this(1) 2(2) e]
  have "temps_ok g1" "operand_ok g1 r" by simp_all
  then have "temps_ok (emit (TACInstruction ''MOV'' r [] name) g1)"
    using n by (intro temps_ok_emit) (simp_all add: operand_ok_not_tempLike)
  with e show ?case by simp
next
  case (3 condition thenBranch elseBranch g)
  obtain c g1 where e: "generateExpression condition g = (c, g1)"
    by (cases "generateExpression condition g")
  define g2 where "g2 = emit (TACInstruction ''IF_FALSE'' c [] ''L1'') g1"
  define g3 where "g3 = generateStatement thenBranch g2"
  define g4 where "g4 = emit (TACInstruction ''GOTO'' [] [] ''L2'') g3"
  define g5 where "g5 = emit (TACInstruction ''LABEL'' [] [] ''L1'') g4"
  define g6 where "g6 = (case elseBranch of None \<Rightarrow> g5 | Some els \<Rightarrow> generateStatement els g5)"
  from 3(3) have fc: "tempFreeExpression condition" and ft: "tempFree thenBranch"
    and fe: "\<And>els. elseBranch = Some els \<Longrightarrow> tempFree els" by simp_all
  from generateExpression_temps_ok [OF fc 3(4) e]
  have "temps_ok g1" "operand_ok g1 c" by simp_all
  then have t2: "temps_ok g2"
    unfolding g2_def by (intro temps_ok_emit) (simp_all add: operand_ok_not_tempLike)
  have t3: "temps_ok g3"
    unfolding g3_def by (rule 3(1) [OF e [symmetric] refl g2_def ft t2])
  have t4: "temps_ok g4"
    unfolding g4_def using t3 by (intro temps_ok_emit) (simp_all add: operand_ok_not_tempLike)
  have t5: "temps_ok g5"
    unfolding g5_def using t4 by (intro temps_ok_emit) (simp_all add: operand_ok_not_tempLike)
  have t6: "temps_ok g6"
  proof (cases elseBranch)
    case None
    with t5 show ?thesis by (simp add: g6_def)
  next
    case (Some els)
    from 3(2) [OF e [symmetric] refl g2_def g3_def g4_def g5_def Some fe [OF Some] t5] Some
    show ?thesis by (simp add: g6_def)
  qed
  have "generateStatement (IfStatement condition thenBranch elseBranch) g
          = emit (TACInstruction ''LABEL'' [] [] ''L2'') g6"
    using e unfolding g2_def g3_def g4_def g5_def g6_def by (simp add: Let_def)
  moreover have "temps_ok (emit (TACInstruction ''LABEL'' [] [] ''L2'') g6)"
    using t6 by (intro temps_ok_emit) (simp_all add: operand_ok_not_tempLike)
  ultimately show ?case by simp
next
  case (4 statements g)
  then show ?case by simp
next
  case (5 val g)
  show ?case
  proof (cases val)
    case None
    have "temps_ok (emit (TACInstruction ''RET'' [] [] []) g)"
      using 5(2) by (intro temps_ok_emit) (simp_all add: operand_ok_not_tempLike)
    with None show ?thesis by simp
  next
    case (Some v)
    obtain r g1 where e: "generateExpression v g = (r, g1)" by (cases "generateExpression v g")
    from 5(1) Some have "tempFreeExpression v" by simp
    from generateExpression_temps_ok [OF this 5(2) e]
    have "temps_ok g1" "operand_ok g1 r" by simp_all
    then have "temps_ok (emit (TACInstruction ''RET'' r [] []) g1)"
      by (intro temps_ok_emit) (simp_all add: operand_ok_not_tempLike)
    with Some e show ?thesis by simp
  qed
next
  case (6 returnType name parameters body g)
  from 6(2) have n: "\<not> tempLike name" and b: "tempFreeList body" by simp_all
  have "temps_ok (emit (TACInstruction ''LABEL'' [] [] name) g)"
    using 6(3) n by (intro temps_ok_emit) (simp_all add: operand_ok_not_tempLike)
  with 6(1) [OF b] show ?case by simp
next
  case (7 g)
  then show ?case by simp
next
  case (8 stmt rest g)
  then show ?case by simp
next
  case (9 g)
  have "temps_ok (emit (TACInstruction ''RET'' [] [] []) g)"
    using 9(2) by (intro temps_ok_emit) (simp_all add: operand_ok_not_tempLike)
  with 9(2) show ?case by simp
next
  case (10 stmt rest g)
  from 10(3) have fs: "tempFree stmt" and fr: "tempFreeList rest" by simp_all
  have t1: "temps_ok (generateStatement stmt g)" by (rule 10(1) [OF fs 10(4)])
  show ?case
  proof (cases "endsWithRet (generateStatement stmt g)")
    case True
    with t1 show ?thesis by (simp add: Let_def)
  next
    case False
    with 10(2) [OF refl False fr t1] show ?thesis by (simp add: Let_def)
  qed
qed

lemma temps_ok_newIRGenerator: "temps_ok newIRGenerator"
  by (simp add: temps_ok_def newIRGenerator_def)

lemma temps_ok_discipline: "temps_ok g \<Longrightarrow> temp_discipline (code g)"
  unfolding temps_ok_def temp_discipline_def by blast

text \<open>What the lexer and the parser hand to the generator: a literal token's lexeme starts
  with a digit or a quote, so it never looks like a temporary, and the names and literals of a
  parsed tree are lexemes of Identifier and literal tokens.\<close>

definition isLiteralKind :: "TokenType \<Rightarrow> bool" where
  "isLiteralKind ty = (ty = NumberLiteral \<or> ty = FloatingPointLiteral \<or> ty = StringLiteral
                       \<or> ty = CharacterLiteral)"

lemma nextToken_literal_lexeme:
  assumes "nextToken L = Inr (tok, L')" and "isLiteralKind (getType tok)"
  shows "\<exists>c rest. getValue tok = c # rest \<and> c \<noteq> CHR ''t''"
proof -
  define M where "M = skipComment (skipWhitespace L)"
  consider (num) "isdigit (currentChar M)"
    | (ident) "\<not> isdigit (currentChar M)" "isalpha (currentChar M) \<or> currentChar M = CHR ''_''"
    | (str) "\<not> isdigit (currentChar M)" "\<not> (isalpha (currentChar M) \<or> currentChar M = CHR ''_'')"
        "currentChar M = CHR 0x22"
    | (chr) "\<not> isdigit (currentChar M)" "\<not> (isalpha (currentChar M) \<or> currentChar M = CHR ''_'')"
        "currentChar M \<noteq> CHR 0x22" "currentChar M = CHR 0x27"
    | (other) "\<not> isdigit (currentChar M)" "\<not> (isalpha (currentChar M) \<or> currentChar M = CHR ''_'')"
        "currentChar M \<noteq> CHR 0x22" "currentChar M \<noteq> CHR 0x27"
    by blast
  then show ?thesis
  proof cases
    case num
    then have "number M = (tok, L')"
      using assms(1) by (simp add: nextToken_def M_def [symmetric])
    from number_lexeme [OF num this] obtain rest where "getValue tok = currentChar M # rest" ..
    moreover from num have "currentChar M \<noteq> CHR ''t''" by (auto simp: isdigit_def)
    ultimately show ?thesis by blast
  next
    case ident
    then have "identifierOrKeyword M = (tok, L')"
      using assms(1) by (simp add: nextToken_def M_def [symmetric])
    from identifierOrKeyword_kind [OF this] assms(2) show ?thesis
      by (auto simp: isLiteralKind_def)
  next
    case str
    then have "stringLiteral M = (tok, L')"
      using assms(1) by (simp add: nextToken_def M_def [symmetric])
    from stringLiteral_lexeme [OF this] str(3) show ?thesis by auto
  next
    case chr
    then have "characterLiteral M = Inr (tok, L')"
      using assms(1) by (simp add: nextToken_def M_def [symmetric])
    from characterLiteral_lexeme [OF this] chr(4) show ?thesis by auto
  next
    case other
    then have "getType tok \<in> {Operator, Separator, EndOfFile, Unknown}"
      using assms(1)
      by (auto simp: nextToken_def M_def [symmetric] Let_def operatorToken_def
               split: if_splits prod.splits)
    with assms(2) show ?thesis by (auto simp: isLiteralKind_def)
  qed
qed

definition tokens_ok :: "Token list \<Rightarrow> bool" where
  "tokens_ok tokens =
     (\<forall>t \<in> set tokens. getType t = Identifier \<or> isLiteralKind (getType t)
                          \<longrightarrow> \<not> tempLike (getValue t))"

lemma tokens_ok_current:
  assumes "tokens_ok tokens" and "match tokens i K" and "K = Identifier \<or> isLiteralKind K"
  shows "\<not> tempLike (getValue (currentToken tokens i))"
proof -
  from assms(3) have "K \<noteq> EndOfFile" by (auto simp: isLiteralKind_def)
  with assms(2) have "i < length tokens" by (rule match_in_range)
  then have "currentToken tokens i \<in> set tokens" by (simp add: currentToken_def)
  with assms show ?thesis by (auto simp: tokens_ok_def match_def)
qed

lemma parsePrimaryExpression_tempFree:
  assumes "tokens_ok tokens" and "parsePrimaryExpression tokens i = Inr (e, i')"
  shows "tempFreeExpression e"
proof -
  consider (lit) K where "match tokens i K" "isLiteralKind K"
      "e = LiteralExpression (getValue (currentToken tokens i))"
    | (var) "match tokens i Identifier" "e = VariableExpression (getValue (currentToken tokens i))"
    using assms(2)
    by (auto simp: parsePrimaryExpression_def isLiteralKind_def split: if_splits)
  then show ?thesis
  proof cases
    case lit
    with tokens_ok_current [OF assms(1) lit(1)] show ?thesis by simp
  next
    case var
    with tokens_ok_current [OF assms(1) var(1)] show ?thesis by simp
  qed
qed

lemma parseBinaryExpression_tempFree_aux:
  "tokens_ok tokens \<longrightarrow>
     (\<forall>e i'. parseBinaryExpression tokens i precedence = Inr (e, i') \<longrightarrow> tempFreeExpression e)"
  "tokens_ok tokens \<longrightarrow> tempFreeExpression left \<longrightarrow>
     (\<forall>e i'. binary_loop tokens i precedence left = Inr (e, i') \<longrightarrow> tempFreeExpression e)"
proof (induct tokens i precedence and tokens i precedence left
        rule: parseBinaryExpression_binary_loop.induct)
  case (1 tokens i precedence)
  show ?case
  proof (intro allI impI)
    fix e i'
    assume ok: "tokens_ok tokens"
      and r: "parseBinaryExpression tokens i precedence = Inr (e, i')"
    then obtain left i1 where p: "parsePrimaryExpression tokens i = Inr (left, i1)"
      and l: "binary_loop tokens i1 precedence left = Inr (e, i')"
      by (auto simp: parseBinaryExpression.simps [of tokens i precedence] split: sum.splits)
    from parsePrimaryExpression_tempFree [OF ok p] have "tempFreeExpression left" .
    with 1 [OF p refl] ok l show "tempFreeExpression e" by blast
  qed
next
  case (2 tokens i precedence left)
  show ?case
  proof (intro allI impI)
    fix e i'
    assume ok: "tokens_ok tokens" and fl: "tempFreeExpression left"
      and r: "binary_loop tokens i precedence left = Inr (e, i')"
    show "tempFreeExpression e"
    proof (cases "getPrecedence (currentToken tokens i) < precedence")
      case True
      with r fl show ?thesis by (simp add: binary_loop.simps [of tokens i precedence left])
    next
      case False
      with r obtain opr right i2 where
        o: "tokenToBinaryOp (currentToken tokens i) = Inr opr"
        and pr: "parseBinaryExpression tokens (advanceToken tokens i)
                   (getPrecedence (currentToken tokens i) + 1) = Inr (right, i2)"
        and l: "binary_loop tokens i2 precedence (BinaryExpression left opr right) = Inr (e, i')"
        by (auto simp: binary_loop.simps [of tokens i precedence left] Let_def split: sum.splits)
      from 2(1) [OF refl False o] ok pr have "tempFreeExpression right" by blast
      with fl have "tempFreeExpression (BinaryExpression left opr right)" by simp
      with 2(2) [OF refl False o pr refl] ok l show ?thesis by blast
    qed
  qed
qed

lemma parseExpression_tempFree:
  "tokens_ok tokens \<Longrightarrow> parseExpression tokens i = Inr (e, i') \<Longrightarrow> tempFreeExpression e"
  unfolding parseExpression_def using parseBinaryExpression_tempFree_aux(1) by blast

lemma parseReturn_tempFree:
  assumes "tokens_ok tokens" and "parseReturn tokens i = Inr (s, i')"
  shows "tempFree s"
proof -
  from assms(2) obtain v i2 where "parseExpression tokens (advanceToken tokens i) = Inr (v, i2)"
    and "s = ReturnStatement (Some v)"
    by (auto simp: parseReturn_def Let_def split: sum.splits if_splits)
  with parseExpression_tempFree [OF assms(1)] show ?thesis by simp
qed

lemma parseAssignmentOrFunctionCall_tempFree:
  assumes "tokens_ok tokens" and "match tokens i Identifier"
    and "parseAssignmentOrFunctionCall tokens i = Inr (s, i')"
  shows "tempFree s"
proof -
  from assms(3) obtain v i3 where
    "parseExpression tokens (advanceToken tokens (advanceToken tokens i)) = Inr (v, i3)"
    and "s = AssignmentStatement (getValue (currentToken tokens i)) v"
    by (auto simp: parseAssignmentOrFunctionCall_def Let_def split: sum.splits if_splits)
  with parseExpression_tempFree [OF assms(1)] tokens_ok_current [OF assms(1,2)]
  show ?thesis by simp
qed

lemma tempFreeList_snoc: "tempFreeList (ss @ [s]) = (tempFreeList ss \<and> tempFree s)"
  by (induction ss) auto


lemma parseStatement_tempFree_aux:
  "tokens_ok tokens \<longrightarrow>
     (\<forall>s i'. parseStatement tokens i = Inr (s, i') \<longrightarrow> tempFree s)"
  "tokens_ok tokens \<longrightarrow>
     (\<forall>s i'. parseBlockStatement tokens i = Inr (s, i') \<longrightarrow> tempFree s)"
  "tokens_ok tokens \<longrightarrow> tempFreeList statements \<longrightarrow>
     (\<forall>s i'. block_loop tokens i statements = Inr (s, i') \<longrightarrow> tempFree s)"
  "tokens_ok tokens \<longrightarrow>
     (\<forall>s i'. parseIfStatement tokens i = Inr (s, i') \<longrightarrow> tempFree s)"
  "tokens_ok tokens \<longrightarrow>
     (\<forall>s i'. parseVariableDeclaration tokens i = Inr (s, i') \<longrightarrow> tempFree s)"
  "tokens_ok tokens \<longrightarrow> \<not> tempLike name \<longrightarrow>
     (\<forall>s i'. parseFunctionDeclaration tokens i returnType name = Inr (s, i') \<longrightarrow> tempFree s)"
  "tokens_ok tokens \<longrightarrow> \<not> tempLike name \<longrightarrow> tempFreeList body \<longrightarrow>
     (\<forall>s i'. body_loop tokens i returnType name parameters body = Inr (s, i') \<longrightarrow> tempFree s)"
proof (induct tokens i and tokens i and tokens i statements and tokens i and tokens i
         and tokens i returnType name and tokens i returnType name parameters body
        rule: parseStatement_parseBlockStatement_block_loop_parseIfStatement_parseVariableDeclaration_parseFunctionDeclaration_body_loop.induct)
  case (1 tokens i)
  show ?case
  proof (intro allI impI)
    fix s i'
    assume ok: "tokens_ok tokens" and r: "parseStatement tokens i = Inr (s, i')"
    show "tempFree s"
      using r ok 1(1) 1(2) [OF _ _ refl] 1(3) [OF _ _ refl]
        parseReturn_tempFree [OF ok, of i s i']
        parseAssignmentOrFunctionCall_tempFree [OF ok, of i s i']
      by (auto simp: parseStatement.simps [of tokens i] Let_def split: if_splits)
  qed
next
  case (2 tokens i)
  then show ?case by (simp add: parseBlockStatement.simps [of tokens i])
next
  case (3 tokens i statements)
  show ?case
  proof (intro allI impI)
    fix s i'
    assume ok: "tokens_ok tokens" and fs: "tempFreeList statements"
      and r: "block_loop tokens i statements = Inr (s, i')"
    show "tempFree s"
    proof (cases "\<not> match tokens i Separator \<or> getValue (currentToken tokens i) \<noteq> ''}''")
      case True
      with r obtain stmt i1 where p: "parseStatement tokens i = Inr (stmt, i1)"
        and l: "block_loop tokens i1 (statements @ [stmt]) = Inr (s, i')"
        by (auto simp: block_loop.simps [of tokens i statements] split: sum.splits)
      from 3(1) [OF True] ok p have "tempFree stmt" by blast
      with fs have "tempFreeList (statements @ [stmt])" by (simp add: tempFreeList_snoc)
      with 3(2) [OF True p refl] ok l show ?thesis by blast
    next
      case False
      with r fs show ?thesis
        by (auto simp: block_loop.simps [of tokens i statements])
    qed
  qed
next
  case (4 tokens i)
  show ?case
  proof (intro allI impI)
    fix s i'
    assume ok: "tokens_ok tokens" and r: "parseIfStatement tokens i = Inr (s, i')"
    define i1 where "i1 = advanceToken tokens i"
    define i2 where "i2 = advanceToken tokens i1"
    from r have g1: "\<not> (\<not> match tokens i1 Separator \<or> getValue (currentToken tokens i1) \<noteq> ''('')"
      by (auto simp: parseIfStatement.simps [of tokens i] Let_def i1_def split: if_splits)
    with r obtain condition i3 where pe: "parseExpression tokens i2 = Inr (condition, i3)"
      by (auto simp: parseIfStatement.simps [of tokens i] Let_def i1_def i2_def
               split: if_splits sum.splits)
    with r g1 have g3: "\<not> (\<not> match tokens i3 Separator \<or> getValue (currentToken tokens i3) \<noteq> '')'')"
      by (auto simp: parseIfStatement.simps [of tokens i] Let_def i1_def i2_def
               split: if_splits sum.splits)
    define i4 where "i4 = advanceToken tokens i3"
    from r g1 pe g3 obtain thenBranch i5 where
      ps: "parseStatement tokens i4 = Inr (thenBranch, i5)"
      by (auto simp: parseIfStatement.simps [of tokens i] Let_def i1_def i2_def i4_def
               split: if_splits sum.splits)
    have fc: "tempFreeExpression condition" using ok pe by (rule parseExpression_tempFree)
    have ft: "tempFree thenBranch"
      using 4(1) [OF i1_def g1 i2_def pe refl g3 i4_def] ok ps by blast
    show "tempFree s"
    proof (cases "match tokens i5 Keyword \<and> getValue (currentToken tokens i5) = ''else''")
      case True
      with r g1 pe g3 ps obtain elseBranch where
        pe2: "parseStatement tokens (advanceToken tokens i5) = Inr (elseBranch, i')"
        and s: "s = IfStatement condition thenBranch (Some elseBranch)"
        by (auto simp: parseIfStatement.simps [of tokens i] Let_def i1_def i2_def i4_def
                 split: if_splits sum.splits)
      from 4(2) [OF i1_def g1 i2_def pe refl g3 i4_def ps refl True] ok pe2
      have "tempFree elseBranch" by blast
      with fc ft s show ?thesis by simp
    next
      case False
      with r g1 pe g3 ps have "s = IfStatement condition thenBranch None"
        by (auto simp: parseIfStatement.simps [of tokens i] Let_def i1_def i2_def i4_def
                 split: if_splits sum.splits)
      with fc ft show ?thesis by simp
    qed
  qed
next
  case (5 tokens i)
  show ?case
  proof (intro allI impI)
    fix s i'
    assume ok: "tokens_ok tokens" and r: "parseVariableDeclaration tokens i = Inr (s, i')"
    define i1 where "i1 = advanceToken tokens i"
    define i2 where "i2 = advanceToken tokens i1"
    from r have g1: "\<not> \<not> match tokens i1 Identifier"
      by (auto simp: parseVariableDeclaration.simps [of tokens i] Let_def i1_def split: if_splits)
    then have n: "\<not> tempLike (getValue (currentToken tokens i1))"
      using tokens_ok_current [OF ok, of i1 Identifier] by simp
    show "tempFree s"
    proof (cases "match tokens i2 Separator \<and> getValue (currentToken tokens i2) = ''(''")
      case True
      with r g1 have
        "parseFunctionDeclaration tokens i2 (getValue (currentToken tokens i))
           (getValue (currentToken tokens i1)) = Inr (s, i')"
        by (auto simp: parseVariableDeclaration.simps [of tokens i] Let_def i1_def i2_def)
      with 5 [OF refl i1_def g1 refl i2_def True] ok n show ?thesis by blast
    next
      case False
      with r g1 obtain initializer where
        s: "s = VariableDeclaration (getValue (currentToken tokens i))
                  (getValue (currentToken tokens i1)) initializer"
        and ini: "initializer = None
                  \<or> (\<exists>e i3. parseExpression tokens (advanceToken tokens i2) = Inr (e, i3)
                        \<and> initializer = Some e)"
        by (auto simp: parseVariableDeclaration.simps [of tokens i] Let_def i1_def i2_def
                 split: if_splits sum.splits)
      from ini have "case initializer of None \<Rightarrow> True | Some e \<Rightarrow> tempFreeExpression e"
        using parseExpression_tempFree [OF ok] by (auto split: option.splits)
      with s n show ?thesis by simp
    qed
  qed
next
  case (6 tokens i returnType name)
  show ?case
  proof (intro allI impI)
    fix s i'
    assume ok: "tokens_ok tokens" and n: "\<not> tempLike name"
      and r: "parseFunctionDeclaration tokens i returnType name = Inr (s, i')"
    define i1 where "i1 = advanceToken tokens i"
    from r obtain parameters i2 where pl: "parameter_loop tokens i1 [] = Inr (parameters, i2)"
      by (auto simp: parseFunctionDeclaration.simps [of tokens i] Let_def i1_def split: sum.splits)
    with r have g2: "\<not> (\<not> match tokens i2 Separator \<or> getValue (currentToken tokens i2) \<noteq> '')'')"
      by (auto simp: parseFunctionDeclaration.simps [of tokens i] Let_def i1_def
               split: sum.splits if_splits)
    define i3 where "i3 = advanceToken tokens i2"
    from r pl g2 have g3: "\<not> (\<not> match tokens i3 Separator \<or> getValue (currentToken tokens i3) \<noteq> ''{'')"
      by (auto simp: parseFunctionDeclaration.simps [of tokens i] Let_def i1_def i3_def
               split: sum.splits if_splits)
    with r pl g2 have
      bl: "body_loop tokens (advanceToken tokens i3) returnType name parameters [] = Inr (s, i')"
      by (auto simp: parseFunctionDeclaration.simps [of tokens i] Let_def i1_def i3_def
               split: sum.splits if_splits)
    have "tempFreeList []" by simp
    with 6 [OF i1_def pl refl g2 i3_def g3] ok n bl show "tempFree s" by blast
  qed
next
  case (7 tokens i returnType name parameters body)
  show ?case
  proof (intro allI impI)
    fix s i'
    assume ok: "tokens_ok tokens" and n: "\<not> tempLike name" and fb: "tempFreeList body"
      and r: "body_loop tokens i returnType name parameters body = Inr (s, i')"
    show "tempFree s"
    proof (cases "\<not> match tokens i Separator \<or> getValue (currentToken tokens i) \<noteq> ''}''")
      case True
      with r obtain stmt i1 where p: "parseStatement tokens i = Inr (stmt, i1)"
        and l: "body_loop tokens i1 returnType name parameters (body @ [stmt]) = Inr (s, i')"
        by (auto simp: body_loop.simps [of tokens i returnType name parameters body]
                 split: sum.splits)
      from 7(1) [OF True] ok p have "tempFree stmt" by blast
      with fb have "tempFreeList (body @ [stmt])" by (simp add: tempFreeList_snoc)
      with 7(2) [OF True p refl] ok n l show ?thesis by blast
    next
      case False
      with r n fb show ?thesis
        by (auto simp: body_loop.simps [of tokens i returnType name parameters body])
    qed
  qed
qed

lemma parse_tempFree:
  assumes "tokens_ok tokens" and "parse tokens = Inr ast"
  shows "tempFree ast"
proof -
  from assms(2) obtain i where "parseStatement tokens 0 = Inr (ast, i)"
    by (auto simp: parse_def split: sum.splits)
  with parseStatement_tempFree_aux(1) [of tokens 0] assms(1) show ?thesis by blast
qed

lemma tokenize_literals:
  assumes "tokenize src = Inr tokens"
  shows "\<forall>t \<in> set tokens. isLiteralKind (getType t) \<longrightarrow> \<not> tempLike (getValue t)"
proof -
  have step: "\<And>L tok L'. nextToken L = Inr (tok, L') \<Longrightarrow>
                 isLiteralKind (getType tok) \<longrightarrow> \<not> tempLike (getValue tok)"
  proof
    fix L tok L'
    assume "nextToken L = Inr (tok, L')" and "isLiteralKind (getType tok)"
    then obtain c rest where "getValue tok = c # rest" "c \<noteq> CHR ''t''"
      using nextToken_literal_lexeme by blast
    then show "\<not> tempLike (getValue tok)" by (simp add: tempLike_def)
  qed
  have "\<forall>t \<in> set ([] :: Token list). isLiteralKind (getType t) \<longrightarrow> \<not> tempLike (getValue t)"
    by simp
  with tokenize_loop_invariant
         [of "\<lambda>t. isLiteralKind (getType t) \<longrightarrow> \<not> tempLike (getValue t)"
             "setSource src" "[]" tokens, OF step]
    assms
  show ?thesis by (simp add: tokenize_def)
qed

lemma generateCode_temp_discipline:
  assumes "tempFree ast"
  shows "temp_discipline (code (generateCode ast newIRGenerator))"
proof -
  have "temps_ok (generateCode ast newIRGenerator)"
  proof (cases ast)
    case (BlockStatement statements)
    with assms have "tempFreeList statements" by simp
    then have "temps_ok (generateStatements statements newIRGenerator)"
      using temps_ok_newIRGenerator by (rule generateStatement_temps_ok(2))
    with BlockStatement show ?thesis by (simp add: generateCode_def)
  qed (use assms generateStatement_temps_ok(1) [OF assms temps_ok_newIRGenerator]
       in \<open>simp_all add: generateCode_def\<close>)
  then show ?thesis by (rule temps_ok_discipline)
qed

lemma to_string_0: "to_string 0 = ''0''"
  by code_simp

text \<open>C8, as stated, fails: \<^verbatim>\<open>int t0 = 1 + 2;\<close> compiles to \<^verbatim>\<open>+ 1 2 t0\<close> and \<^verbatim>\<open>MOV t0  t0\<close>, where
  the temporary name \<^verbatim>\<open>t0\<close> is the result of two instructions, one of them a \<^verbatim>\<open>MOV\<close>.\<close>

theorem temporaries_assigned_once_counterexample:
  "compile ''int t0 = 1 + 2;''
     = Inr [TACInstruction ''+'' ''1'' ''2'' ''t0'', TACInstruction ''MOV'' ''t0'' [] ''t0'']
   \<and> \<not> temp_discipline
         [TACInstruction ''+'' ''1'' ''2'' ''t0'', TACInstruction ''MOV'' ''t0'' [] ''t0'']"
proof -
  let ?c = "[TACInstruction ''+'' ''1'' ''2'' ''t0'', TACInstruction ''MOV'' ''t0'' [] ''t0'']"
  have t: "tempName 0 = ''t0''" by (simp add: tempName_def to_string_0)
  have c: "compile ''int t0 = 1 + 2;'' = Inr ?c" by code_simp
  have "\<not> assigned_once ?c ''t0''"
  proof
    assume "assigned_once ?c ''t0''"
    then obtain before ins after where d: "?c = before @ ins # after"
      and u: "\<forall>x \<in> set before \<union> set after. result x \<noteq> ''t0''"
      unfolding assigned_once_def by blast
    from d have "before = [] \<and> after = [TACInstruction ''MOV'' ''t0'' [] ''t0'']
        \<or> before = [TACInstruction ''+'' ''1'' ''2'' ''t0''] \<and> after = []"
      by (auto simp: Cons_eq_append_conv)
    with u show False by auto
  qed
  moreover have "\<exists>x \<in> set ?c. mentions x (tempName 0)"
    by (simp add: t mentions_def)
  ultimately have "\<not> temp_discipline ?c"
    unfolding temp_discipline_def using t by metis
  with c show ?thesis by blast
qed

text \<open>C8, amended: when no variable name, assignment target, function name or literal of
  the tree is the letter t followed by digits, then in the instructions generated from the
  initial state every temporary name that occurs is the result of exactly one instruction, a
  binary-operator instruction, which comes before every instruction that has the name as an
  argument. This is so for every source text that compiles and has no Identifier token of that
  form.\<close>

theorem temporaries_assigned_once:
  "(tempFree ast \<longrightarrow> temp_discipline (code (generateCode ast newIRGenerator)))
   \<and> (tokenize src = Inr tokens
        \<and> (\<forall>t \<in> set tokens. getType t = Identifier \<longrightarrow> \<not> tempLike (getValue t))
        \<and> compile src = Inr c
       \<longrightarrow> temp_discipline c)"
proof (intro conjI impI)
  assume "tempFree ast"
  then show "temp_discipline (code (generateCode ast newIRGenerator))"
    by (rule generateCode_temp_discipline)
next
  assume h: "tokenize src = Inr tokens
        \<and> (\<forall>t \<in> set tokens. getType t = Identifier \<longrightarrow> \<not> tempLike (getValue t))
        \<and> compile src = Inr c"
  then have t: "tokenize src = Inr tokens"
    and ids: "\<forall>t \<in> set tokens. getType t = Identifier \<longrightarrow> \<not> tempLike (getValue t)"
    and c: "compile src = Inr c" by simp_all
  from tokenize_literals [OF t] ids have ok: "tokens_ok tokens"
    by (auto simp: tokens_ok_def)
  from c t obtain tree where p: "parse tokens = Inr tree"
    and c': "c = code (generateCode tree newIRGenerator)"
    by (auto simp: compile_def split: sum.splits)
  from parse_tempFree [OF ok p] have "tempFree tree" .
  then show "temp_discipline c"
    unfolding c' by (rule generateCode_temp_discipline)
qed

text \<open>C8, witness: \<^verbatim>\<open>int x = 1 + 2;\<close>.\<close>

theorem temporaries_assigned_once_witness:
  "tempFree (VariableDeclaration ''int'' ''x''
      (Some (BinaryExpression (LiteralExpression ''1'') Add (LiteralExpression ''2''))))
   \<and> tokenize ''int x = 1 + 2;''
     = Inr [Token Keyword ''int'' 1 1, Token Identifier ''x'' 1 5, Token Operator ''='' 1 7,
            Token NumberLiteral ''1'' 1 9, Token Operator ''+'' 1 11,
            Token NumberLiteral ''2'' 1 13, Token Separator '';'' 1 14]
   \<and> \<not> tempLike ''x''
   \<and> compile ''int x = 1 + 2;''
     = Inr [TACInstruction ''+'' ''1'' ''2'' ''t0'', TACInstruction ''MOV'' ''t0'' [] ''x'']
   \<and> temp_discipline
       [TACInstruction ''+'' ''1'' ''2'' ''t0'', TACInstruction ''MOV'' ''t0'' [] ''x'']"
proof -
  let ?s = "VariableDeclaration ''int'' ''x''
      (Some (BinaryExpression (LiteralExpression ''1'') Add (LiteralExpression ''2'')))"
  let ?ts = "[Token Keyword ''int'' 1 1, Token Identifier ''x'' 1 5, Token Operator ''='' 1 7,
            Token NumberLiteral ''1'' 1 9, Token Operator ''+'' 1 11,
            Token NumberLiteral ''2'' 1 13, Token Separator '';'' 1 14]"
  let ?c = "[TACInstruction ''+'' ''1'' ''2'' ''t0'', TACInstruction ''MOV'' ''t0'' [] ''x'']"
  have f: "tempFree ?s" by (simp add: tempLike_def)
  have t: "tokenize ''int x = 1 + 2;'' = Inr ?ts" by code_simp
  have x: "\<not> tempLike ''x''" by (simp add: tempLike_def)
  have ids: "\<forall>t \<in> set ?ts. getType t = Identifier \<longrightarrow> \<not> tempLike (getValue t)"
    using x by simp
  have c: "compile ''int x = 1 + 2;'' = Inr ?c" by code_simp
  note inst = temporaries_assigned_once [of ?s "''int x = 1 + 2;''" ?ts ?c]
  note d = inst [THEN conjunct2, THEN mp, OF conjI [OF t conjI [OF ids c]]]
  show ?thesis
    by (intro conjI f t x c d)
qed

end
